theory Spec2Isabelle
  imports Complex_Main "HOL-Library.AList" "HOL-Library.Multiset"
begin

section \<open>The input table\<close>

text \<open>
  The program is the single function \<open>create_web_network\<close> of \<open>docs/web_network.py\<close>.
  It reads a table with the columns \<open>Gene Symbol\<close>, \<open>Tumor\<close> and \<open>PCC\<close>, builds a
  networkx graph and a dictionary of positions, and writes both into an HTML file.

  Python floats are taken as real numbers: comparisons are exact on both sides, and the
  arithmetic is the one the source writes, without rounding.  Every exception the
  function can meet is a value of \<open>error\<close>; the names say which call raised it.
\<close>

datatype error =
    ReadError
  | KeyError string
  | ValueError
  | MakedirsError
  | OpenError
  | WriteError
  | BrowserError

text \<open>
  One row of the data frame.  \<open>idx\<close> is the index label that pandas gives the row:
  \<open>pd.read_csv\<close> numbers the rows of the file from 0, and neither the boolean filter,
  nor \<open>sort_values\<close>, nor \<open>head\<close> renumbers them.
\<close>

datatype row = Row (idx: nat) (gene_symbol: string) (tumor: string) (pcc: real)

text \<open>
  What \<open>pd.read_csv\<close> returns: the names of the columns that the file has, and the
  cells of the three columns the program reads.  The cells of a column whose name is
  absent from \<open>columns\<close> are never read: the access raises first.
\<close>

record dataframe =
  columns :: "string list"
  cells :: "(string \<times> string \<times> real) list"

definition label_rows :: "(string \<times> string \<times> real) list \<Rightarrow> row list" where
  "label_rows cs = map (\<lambda>(i, g, t, p). Row i g t p) (List.enumerate 0 cs)"

text \<open>\<open>Series.unique()\<close>: the distinct values in the order of their first appearance.\<close>

fun unique :: "'a list \<Rightarrow> 'a list" where
  "unique [] = []"
| "unique (x # xs) = x # filter (\<lambda>y. y \<noteq> x) (unique xs)"

section \<open>The networkx graph\<close>

datatype node_kind = Central | Tissue | Gene

text \<open>
  The attribute dictionary of a node.  A key that is absent is \<open>None\<close>;
  \<open>dict.update\<close> overwrites the keys it is given and keeps the others.
\<close>

record attrs =
  node_type :: "node_kind option"
  gene_count :: "nat option"
  pcc_attr :: "real option"
  tissue_attr :: "string option"

definition no_attrs :: attrs where
  "no_attrs = \<lparr>node_type = None, gene_count = None, pcc_attr = None, tissue_attr = None\<rparr>"

definition or_else :: "'a option \<Rightarrow> 'a option \<Rightarrow> 'a option" where
  "or_else new old = (case new of None \<Rightarrow> old | Some v \<Rightarrow> Some v)"

definition update_attrs :: "attrs \<Rightarrow> attrs \<Rightarrow> attrs" where
  "update_attrs old new =
     \<lparr>node_type = or_else (node_type new) (node_type old),
      gene_count = or_else (gene_count new) (gene_count old),
      pcc_attr = or_else (pcc_attr new) (pcc_attr old),
      tissue_attr = or_else (tissue_attr new) (tissue_attr old)\<rparr>"

text \<open>
  \<open>nx.Graph\<close> keeps two insertion-ordered dictionaries: \<open>_node\<close> from a node to its
  attributes, and \<open>_adj\<close> from a node to the dictionary of its neighbours.  The only
  edge attribute of this program is \<open>weight\<close>, so a neighbour maps to a number.
  A node is its name: the central gene, the tissues and the genes share one key space.
\<close>

record graph =
  g_node :: "(string \<times> attrs) list"
  g_adj :: "(string \<times> (string \<times> real) list) list"

definition empty_graph :: graph where
  "empty_graph = \<lparr>g_node = [], g_adj = []\<rparr>"

definition has_node :: "graph \<Rightarrow> string \<Rightarrow> bool" where
  "has_node g n = (map_of (g_node g) n \<noteq> None)"

definition add_node :: "string \<Rightarrow> attrs \<Rightarrow> graph \<Rightarrow> graph" where
  "add_node n a g =
     (case map_of (g_node g) n of
        None \<Rightarrow> \<lparr>g_node = AList.update n (update_attrs no_attrs a) (g_node g),
                 g_adj = AList.update n [] (g_adj g)\<rparr>
      | Some old \<Rightarrow> \<lparr>g_node = AList.update n (update_attrs old a) (g_node g),
                     g_adj = g_adj g\<rparr>)"

definition neighbours :: "(string \<times> (string \<times> real) list) list \<Rightarrow> string \<Rightarrow> (string \<times> real) list" where
  "neighbours adj n = (case map_of adj n of None \<Rightarrow> [] | Some nb \<Rightarrow> nb)"

definition add_edge :: "string \<Rightarrow> string \<Rightarrow> real \<Rightarrow> graph \<Rightarrow> graph" where
  "add_edge u v w g =
     (let g1 = (if has_node g u then g else add_node u no_attrs g);
          g2 = (if has_node g1 v then g1 else add_node v no_attrs g1);
          adj1 = AList.update u (AList.update v w (neighbours (g_adj g2) u)) (g_adj g2);
          adj2 = AList.update v (AList.update u w (neighbours adj1 v)) adj1
      in \<lparr>g_node = g_node g2, g_adj = adj2\<rparr>)"

text \<open>
  \<open>G.edges()\<close>: the nodes in insertion order, each with its neighbours in insertion
  order, an edge being reported from the endpoint that comes first.
\<close>

fun edges_from :: "string list \<Rightarrow> (string \<times> (string \<times> real) list) list \<Rightarrow> (string \<times> string \<times> real) list" where
  "edges_from seen [] = []"
| "edges_from seen ((n, nb) # rest) =
     map (\<lambda>(v, w). (n, v, w)) (filter (\<lambda>(v, w). v \<notin> set seen) nb) @ edges_from (n # seen) rest"

definition edges :: "graph \<Rightarrow> (string \<times> string \<times> real) list" where
  "edges g = edges_from [] (g_adj g)"

section \<open>Building the graph and the layout\<close>

text \<open>
  The local variables that the loops of \<open>create_web_network\<close> update.  \<open>draws\<close> counts
  the calls of \<open>np.random.normal\<close> made so far; the random source is a parameter
  \<open>normal\<close>, whose value at \<open>k\<close> and \<open>s\<close> is what the call number \<open>k\<close> returns for the
  scale \<open>s\<close>.
\<close>

record build =
  G :: graph
  fixed_positions :: "string \<rightharpoonup> real \<times> real"
  genes_added :: nat
  draws :: nat

definition radius :: real where
  "radius = 400"

definition golden_angle :: real where
  "golden_angle = pi * (3 - sqrt 5)"

definition max_genes_per_tissue :: nat where
  "max_genes_per_tissue = 150"

definition tissue_attrs :: "nat \<Rightarrow> attrs" where
  "tissue_attrs c = \<lparr>node_type = Some Tissue, gene_count = Some c, pcc_attr = None, tissue_attr = None\<rparr>"

definition gene_attrs :: "real \<Rightarrow> string \<Rightarrow> attrs" where
  "gene_attrs p t = \<lparr>node_type = Some Gene, gene_count = None, pcc_attr = Some p, tissue_attr = Some t\<rparr>"

definition central_attrs :: attrs where
  "central_attrs = \<lparr>node_type = Some Central, gene_count = None, pcc_attr = None, tissue_attr = None\<rparr>"

text \<open>Lines 54 to 62: the body of the loop over \<open>enumerate(tissue_types)\<close>.\<close>

definition tissue_step :: "string \<Rightarrow> (string \<Rightarrow> nat) \<Rightarrow> nat \<Rightarrow> string \<Rightarrow> build \<Rightarrow> build" where
  "tissue_step central_node tissue_gene_counts i tissue st =
     (let angle = real i * golden_angle;
          x = radius * cos angle;
          y = radius * sin angle
      in \<lparr>G = add_edge central_node tissue 5
                 (add_node tissue (tissue_attrs (tissue_gene_counts tissue)) (G st)),
          fixed_positions = (fixed_positions st)(tissue \<mapsto> (x, y)),
          genes_added = genes_added st,
          draws = draws st\<rparr>)"

fun add_tissues :: "string \<Rightarrow> (string \<Rightarrow> nat) \<Rightarrow> nat \<Rightarrow> string list \<Rightarrow> build \<Rightarrow> build" where
  "add_tissues central_node cnt i [] st = st"
| "add_tissues central_node cnt i (t # ts) st =
     add_tissues central_node cnt (Suc i) ts (tissue_step central_node cnt i t st)"

text \<open>
  Lines 79 to 107: the body of the loop over \<open>tissue_genes.iterrows()\<close>, once the
  accesses that can raise have succeeded.  \<open>iterrows\<close> yields the index label of the
  row, so \<open>idx\<close> is the label; \<open>n\<close> is \<open>len(tissue_genes)\<close> and \<open>centre\<close> is
  \<open>fixed_positions[tissue]\<close>.
\<close>

definition gene_step :: "(nat \<Rightarrow> real \<Rightarrow> real) \<Rightarrow> string \<Rightarrow> nat \<Rightarrow> real \<times> real \<Rightarrow> row \<Rightarrow> build \<Rightarrow> build" where
  "gene_step normal tissue n centre r st =
     (let gene = gene_symbol r;
          p = pcc r;
          g1 = (if has_node (G st) gene then G st else add_node gene (gene_attrs p tissue) (G st));
          added = (if has_node (G st) gene then genes_added st else genes_added st + 1);
          g2 = add_edge gene tissue (p * 3) g1;
          angle = (real (idx r) / real n) * 2 * pi;
          distance = 50 + (1 - p) * 150;
          noise_scale = 0.3 + 0.6 * (1 - p);
          angle_noise = normal (draws st) noise_scale * 0.5;
          distance_noise = normal (draws st + 1) noise_scale * 50;
          cloud_angle = angle + angle_noise;
          cloud_distance = distance + distance_noise;
          x = fst centre + cloud_distance * cos cloud_angle;
          y = snd centre + cloud_distance * sin cloud_angle
      in \<lparr>G = g2,
          fixed_positions = (fixed_positions st)(gene \<mapsto> (x, y)),
          genes_added = added,
          draws = draws st + 2\<rparr>)"

text \<open>
  The loop over the rows of one tissue.  \<open>row['Gene Symbol']\<close> raises \<open>KeyError\<close> when
  the file has no such column, \<open>np.random.normal\<close> raises \<open>ValueError\<close> for a negative
  scale, and \<open>fixed_positions[tissue]\<close> raises \<open>KeyError\<close> for a missing key.
\<close>

fun add_genes :: "string list \<Rightarrow> (nat \<Rightarrow> real \<Rightarrow> real) \<Rightarrow> string \<Rightarrow> nat \<Rightarrow> row list \<Rightarrow> build \<Rightarrow> error + build" where
  "add_genes cols normal tissue n [] st = Inr st"
| "add_genes cols normal tissue n (r # rs) st =
     (if ''Gene Symbol'' \<notin> set cols then Inl (KeyError ''Gene Symbol'')
      else if 0.3 + 0.6 * (1 - pcc r) < 0 then Inl ValueError
      else case fixed_positions st tissue of
             None \<Rightarrow> Inl (KeyError tissue)
           | Some centre \<Rightarrow> add_genes cols normal tissue n rs (gene_step normal tissue n centre r st))"

text \<open>
  Lines 70 to 75: the rows of one tissue, sorted by \<open>PCC\<close> in descending order and cut
  to 150.  \<open>sort_values\<close> is a parameter: the source calls it with the default
  \<open>kind\<close>, for which pandas promises a sorted result and no order among equal keys.
\<close>

definition tissue_rows :: "(row list \<Rightarrow> row list) \<Rightarrow> row list \<Rightarrow> string \<Rightarrow> row list" where
  "tissue_rows sort_values filtered_df tissue =
     (let tissue_genes = sort_values (filter (\<lambda>r. tumor r = tissue) filtered_df)
      in if length tissue_genes > max_genes_per_tissue
         then take max_genes_per_tissue tissue_genes
         else tissue_genes)"

fun add_all_genes :: "string list \<Rightarrow> (row list \<Rightarrow> row list) \<Rightarrow> (nat \<Rightarrow> real \<Rightarrow> real) \<Rightarrow> row list \<Rightarrow> string list \<Rightarrow> build \<Rightarrow> error + build" where
  "add_all_genes cols sort_values normal filtered_df [] st = Inr st"
| "add_all_genes cols sort_values normal filtered_df (t # ts) st =
     (case add_genes cols normal t (length (tissue_rows sort_values filtered_df t))
             (tissue_rows sort_values filtered_df t) st of
        Inl e \<Rightarrow> Inl e
      | Inr st' \<Rightarrow> add_all_genes cols sort_values normal filtered_df ts st')"

definition filtered_rows :: "dataframe \<Rightarrow> row list" where
  "filtered_rows df = filter (\<lambda>r. pcc r \<ge> 0.8) (label_rows (cells df))"

definition initial_build :: "string \<Rightarrow> build" where
  "initial_build central_node =
     \<lparr>G = add_node central_node central_attrs empty_graph,
      fixed_positions = [central_node \<mapsto> (0, 0)],
      genes_added = 0,
      draws = 0\<rparr>"

text \<open>Lines 17 to 62: the state once the central node and the tissues are in place.\<close>

definition tissues_placed :: "string \<Rightarrow> dataframe \<Rightarrow> build" where
  "tissues_placed central_node df =
     add_tissues central_node (count_list (map tumor (filtered_rows df))) 0
       (unique (map tumor (filtered_rows df))) (initial_build central_node)"

text \<open>Lines 17 to 107.\<close>

definition build_graph :: "(row list \<Rightarrow> row list) \<Rightarrow> (nat \<Rightarrow> real \<Rightarrow> real) \<Rightarrow> string \<Rightarrow> dataframe \<Rightarrow> error + build" where
  "build_graph sort_values normal central_node df =
     (if ''PCC'' \<notin> set (columns df) then Inl (KeyError ''PCC'')
      else if ''Tumor'' \<notin> set (columns df) then Inl (KeyError ''Tumor'')
      else add_all_genes (columns df) sort_values normal (filtered_rows df)
             (unique (map tumor (filtered_rows df))) (tissues_placed central_node df))"

section \<open>Serialisation\<close>

text \<open>
  An entry of \<open>nodes_data\<close> and of \<open>links_data\<close>.  The fields \<open>name\<close>, \<open>size\<close>,
  \<open>color\<close> and \<open>label\<close> are left out: they are constants or copies of \<open>id\<close>.
\<close>

datatype node_json =
  NodeJson (j_id: string) (j_node_type: node_kind) (j_gene_count: "nat option")
    (j_pcc: "real option") (j_tissue: "string option") (j_x: real) (j_y: real)

datatype link_json = LinkJson (l_source: string) (l_target: string) (l_value: real)

text \<open>Lines 128 to 158: the loop over \<open>G.nodes()\<close>.\<close>

fun node_entries :: "string \<Rightarrow> (string \<rightharpoonup> real \<times> real) \<Rightarrow> (string \<times> attrs) list \<Rightarrow> error + node_json list" where
  "node_entries central_node pos [] = Inr []"
| "node_entries central_node pos ((node, a) # rest) =
     (if node = central_node then node_entries central_node pos rest
      else if node_type a = Some Tissue then
        (case pos node of
           None \<Rightarrow> Inl (KeyError node)
         | Some (x, y) \<Rightarrow>
             (case node_entries central_node pos rest of
                Inl e \<Rightarrow> Inl e
              | Inr es \<Rightarrow>
                  Inr (NodeJson node Tissue
                        (Some (case gene_count a of None \<Rightarrow> 0 | Some c \<Rightarrow> c)) None None x y # es)))
      else if node_type a = Some Gene then
        (case pos node of
           None \<Rightarrow> Inl (KeyError node)
         | Some (x, y) \<Rightarrow>
             (case node_entries central_node pos rest of
                Inl e \<Rightarrow> Inl e
              | Inr es \<Rightarrow>
                  Inr (NodeJson node Gene None
                        (Some (case pcc_attr a of None \<Rightarrow> 0 | Some p \<Rightarrow> p)) (tissue_attr a) x y # es)))
      else node_entries central_node pos rest)"

text \<open>Lines 112 to 158.\<close>

definition nodes_data :: "string \<Rightarrow> build \<Rightarrow> error + node_json list" where
  "nodes_data central_node st =
     (case fixed_positions st central_node of
        None \<Rightarrow> Inl (KeyError central_node)
      | Some (x, y) \<Rightarrow>
          (case node_entries central_node (fixed_positions st) (g_node (G st)) of
             Inl e \<Rightarrow> Inl e
           | Inr es \<Rightarrow> Inr (NodeJson central_node Central None None None x y # es)))"

text \<open>Lines 161 to 166.\<close>

definition links_data :: "graph \<Rightarrow> link_json list" where
  "links_data g = map (\<lambda>(s, t, w). LinkJson s t w) (edges g)"

section \<open>The whole function\<close>

text \<open>
  What the function finds outside: the result of \<open>pd.read_csv\<close>, whether the output
  directory has to be made, and which of \<open>os.makedirs\<close>, \<open>open\<close>, \<open>f.write\<close> and
  \<open>webbrowser.open\<close> raise.  The informative \<open>print\<close> calls are left out.
\<close>

record env =
  csv :: "error + dataframe"
  dir_missing :: bool
  makedirs_raises :: bool
  open_raises :: bool
  write_raises :: bool
  browser_raises :: bool

text \<open>
  The output file after the call: not touched, created by \<open>open\<close> and left without
  the whole document, or holding the document with its two embedded arrays.
\<close>

datatype file_state = NotWritten | Truncated | Written "node_json list" "link_json list"

datatype console_line = PrintError error | PrintTraceback error

record outcome =
  returned :: "(graph \<times> (string \<rightharpoonup> real \<times> real)) option"
  out_file :: file_state
  console :: "console_line list"

text \<open>The body of the \<open>try\<close> block: the value or the exception, and the file it leaves.\<close>

definition try_body :: "env \<Rightarrow> (row list \<Rightarrow> row list) \<Rightarrow> (nat \<Rightarrow> real \<Rightarrow> real) \<Rightarrow> string \<Rightarrow> (error + graph \<times> (string \<rightharpoonup> real \<times> real)) \<times> file_state" where
  "try_body e sort_values normal central_node =
     (case csv e of
        Inl err \<Rightarrow> (Inl err, NotWritten)
      | Inr df \<Rightarrow>
          (case build_graph sort_values normal central_node df of
             Inl err \<Rightarrow> (Inl err, NotWritten)
           | Inr st \<Rightarrow>
               (case nodes_data central_node st of
                  Inl err \<Rightarrow> (Inl err, NotWritten)
                | Inr ns \<Rightarrow>
                    if dir_missing e \<and> makedirs_raises e then (Inl MakedirsError, NotWritten)
                    else if open_raises e then (Inl OpenError, NotWritten)
                    else if write_raises e then (Inl WriteError, Truncated)
                    else if browser_raises e
                      then (Inl BrowserError, Written ns (links_data (G st)))
                    else (Inr (G st, fixed_positions st), Written ns (links_data (G st))))))"

text \<open>Lines 11 to 870: the \<open>try\<close> block and its \<open>except Exception\<close> handler.\<close>

definition create_web_network :: "env \<Rightarrow> (row list \<Rightarrow> row list) \<Rightarrow> (nat \<Rightarrow> real \<Rightarrow> real) \<Rightarrow> string \<Rightarrow> outcome" where
  "create_web_network e sort_values normal central_node =
     (case try_body e sort_values normal central_node of
        (Inr res, f) \<Rightarrow> \<lparr>returned = Some res, out_file = f, console = []\<rparr>
      | (Inl err, f) \<Rightarrow> \<lparr>returned = None, out_file = f, console = [PrintError err, PrintTraceback err]\<rparr>)"

section \<open>Notions used to state the properties\<close>

text \<open>\<open>G[u][v]['weight']\<close>, when the edge exists.\<close>

definition edge_weight :: "graph \<Rightarrow> string \<Rightarrow> string \<Rightarrow> real option" where
  "edge_weight g u v = map_of (neighbours (g_adj g) u) v"

text \<open>The gene nodes among \<open>G.neighbors(tissue)\<close>: the item nodes attached to a category.\<close>

definition kind_of :: "graph \<Rightarrow> string \<Rightarrow> node_kind option" where
  "kind_of g n = (case map_of (g_node g) n of None \<Rightarrow> None | Some a \<Rightarrow> node_type a)"

definition gene_neighbours :: "graph \<Rightarrow> string \<Rightarrow> string list" where
  "gene_neighbours g tissue =
     filter (\<lambda>v. kind_of g v = Some Gene) (map fst (neighbours (g_adj g) tissue))"

text \<open>The number of gene nodes attached to a tissue in the graph that the function returns.\<close>

definition attached_count :: "outcome \<Rightarrow> string \<Rightarrow> nat option" where
  "attached_count out tissue =
     (case returned out of
        None \<Rightarrow> None
      | Some (g, pos) \<Rightarrow> Some (length (gene_neighbours g tissue)))"

text \<open>
  The rows in the order in which the two nested loops of lines 68 to 107 reach them,
  each with the tissue of the outer loop and with \<open>len(tissue_genes)\<close>.
\<close>

definition work :: "(row list \<Rightarrow> row list) \<Rightarrow> row list \<Rightarrow> string list \<Rightarrow> (string \<times> nat \<times> row) list" where
  "work sort_values filtered_df tissue_types =
     concat (map (\<lambda>t. map (\<lambda>r. (t, length (tissue_rows sort_values filtered_df t), r))
                          (tissue_rows sort_values filtered_df t)) tissue_types)"

text \<open>The two loops as one loop over that list; \<open>add_all_genes_run_work\<close> shows that they agree.\<close>

fun run_work :: "string list \<Rightarrow> (nat \<Rightarrow> real \<Rightarrow> real) \<Rightarrow> (string \<times> nat \<times> row) list \<Rightarrow> build \<Rightarrow> error + build" where
  "run_work cols normal [] st = Inr st"
| "run_work cols normal ((t, n, r) # xs) st =
     (if ''Gene Symbol'' \<notin> set cols then Inl (KeyError ''Gene Symbol'')
      else if 0.3 + 0.6 * (1 - pcc r) < 0 then Inl ValueError
      else case fixed_positions st t of
             None \<Rightarrow> Inl (KeyError t)
           | Some centre \<Rightarrow> run_work cols normal xs (gene_step normal t n centre r st))"

text \<open>
  What pandas promises of \<open>sort_values('PCC', ascending=False)\<close>: the same rows, in
  descending order of \<open>PCC\<close>.
\<close>

definition sorts_desc :: "(row list \<Rightarrow> row list) \<Rightarrow> bool" where
  "sorts_desc sort_values =
     (\<forall>xs. mset (sort_values xs) = mset xs \<and> sorted_wrt (\<lambda>a b. pcc b \<le> pcc a) (sort_values xs))"

text \<open>One such function, which keeps equal keys in their original order.\<close>

definition stable_sort_desc :: "row list \<Rightarrow> row list" where
  "stable_sort_desc = sort_key (\<lambda>r. - pcc r)"

text \<open>An environment in which no call to the outside raises.\<close>

definition quiet_env :: "dataframe \<Rightarrow> env" where
  "quiet_env df =
     \<lparr>csv = Inr df, dir_missing = False, makedirs_raises = False, open_raises = False,
      write_raises = False, browser_raises = False\<rparr>"

definition all_columns :: "string list" where
  "all_columns = [''Gene Symbol'', ''Tumor'', ''PCC'']"

text \<open>Small tables on which the function is run below.\<close>

definition self_row_table :: dataframe where
  "self_row_table = \<lparr>columns = all_columns, cells = [(''GCH1'', ''Liver'', 1)]\<rparr>"

definition two_gene_table :: dataframe where
  "two_gene_table = \<lparr>columns = all_columns, cells = [(''G1'', ''T'', 0.9), (''G2'', ''T'', 0.95)]\<rparr>"

definition repeated_gene_table :: dataframe where
  "repeated_gene_table =
     \<lparr>columns = all_columns,
      cells = [(''G'', ''A'', 0.9), (''G'', ''B'', 0.95), (''G'', ''B'', 0.85), (''H'', ''B'', 0.5)]\<rparr>"

definition no_noise :: "nat \<Rightarrow> real \<Rightarrow> real" where
  "no_noise k s = 0"

text \<open>
  A table of 151 rows of one tissue, in descending order of score, whose first two
  rows name the same gene: the names are \<open>g\<close>, \<open>g\<close>, \<open>gg\<close>, \<open>ggg\<close> and so on.
\<close>

definition capped_row :: "nat \<Rightarrow> string \<times> string \<times> real" where
  "capped_row i = (replicate (max i 1) CHR ''g'', ''T'', 1 - real i / 1000)"

definition capped_table :: dataframe where
  "capped_table = \<lparr>columns = all_columns, cells = map capped_row [0..<151]\<rparr>"

definition tissue_named_gene_table :: dataframe where
  "tissue_named_gene_table = \<lparr>columns = all_columns, cells = [(''Liver'', ''Liver'', 0.875)]\<rparr>"

definition no_gene_column_table :: dataframe where
  "no_gene_column_table = \<lparr>columns = [''Tumor'', ''PCC''], cells = [(''X'', ''Liver'', 0.5)]\<rparr>"

definition no_pcc_column_table :: dataframe where
  "no_pcc_column_table =
     \<lparr>columns = [''Gene Symbol'', ''Tumor''], cells = [(''G1'', ''T'', 0.9), (''G2'', ''T'', 0.95)]\<rparr>"

definition viewer_fails_env :: "dataframe \<Rightarrow> env" where
  "viewer_fails_env df =
     \<lparr>csv = Inr df, dir_missing = False, makedirs_raises = False, open_raises = False,
      write_raises = False, browser_raises = True\<rparr>"

text \<open>
  The position of an item as section 4.3 of the specification words it, for comparison
  with \<open>gene_step\<close>: \<open>i\<close> is the index of the item in the sorted list of its
  category, \<open>n\<close> the length of that list, and \<open>z1\<close>, \<open>z2\<close> are the two draws from
  \<open>Normal(0, noiseScale)\<close>.
\<close>

definition spec_item_position :: "real \<times> real \<Rightarrow> nat \<Rightarrow> nat \<Rightarrow> real \<Rightarrow> real \<Rightarrow> real \<Rightarrow> real \<times> real" where
  "spec_item_position centre i n score z1 z2 =
     (let base_angle = (real i / real n) * (2 * pi);
          base_distance = 50 + (1 - score) * 150;
          cloud_angle = base_angle + z1 * 0.5;
          cloud_distance = base_distance + z2 * 50
      in (fst centre + cloud_distance * cos cloud_angle,
          snd centre + cloud_distance * sin cloud_angle))"

text \<open>
  The shape that every graph of this program has: the two dictionaries have the same
  keys in the same order, and no key occurs twice in a dictionary.
\<close>

definition wf_graph :: "graph \<Rightarrow> bool" where
  "wf_graph g \<longleftrightarrow>
     map fst (g_adj g) = map fst (g_node g) \<and> distinct (map fst (g_node g)) \<and>
     (\<forall>(n, nb) \<in> set (g_adj g). distinct (map fst nb))"

text \<open>Lines 82 to 86 alone: what one row does to the graph.\<close>

definition gene_graph :: "string \<Rightarrow> row \<Rightarrow> graph \<Rightarrow> graph" where
  "gene_graph t r g =
     add_edge (gene_symbol r) t (pcc r * 3)
       (if has_node g (gene_symbol r) then g else add_node (gene_symbol r) (gene_attrs (pcc r) t) g)"

text \<open>No node carries the attributes of a gene: so it is before the loop over the genes.\<close>

definition plain_nodes :: "graph \<Rightarrow> bool" where
  "plain_nodes g \<longleftrightarrow> (\<forall>n a. map_of (g_node g) n = Some a \<longrightarrow> pcc_attr a = None \<and> tissue_attr a = None)"

text \<open>The same for the state of the loops: every node has a position.\<close>

definition wf_build :: "build \<Rightarrow> bool" where
  "wf_build st \<longleftrightarrow> wf_graph (G st) \<and> (\<forall>n. has_node (G st) n \<longrightarrow> fixed_positions st n \<noteq> None)"

section \<open>Properties of the graph operations\<close>

lemma update_attrs_no_attrs [simp]: "update_attrs no_attrs a = a"
  by (simp add: update_attrs_def no_attrs_def or_else_def split: option.splits)

lemma map_of_Some_key: "map_of al k = Some v \<Longrightarrow> k \<in> fst ` set al"
  by (force dest: map_of_SomeD)

lemma has_node_keys: "has_node g n \<longleftrightarrow> n \<in> set (map fst (g_node g))"
  by (simp add: has_node_def map_of_eq_None_iff)

lemma node_add_node:
  "map_of (g_node (add_node n a g)) m =
     (if m = n then Some (update_attrs (case map_of (g_node g) n of None \<Rightarrow> no_attrs | Some old \<Rightarrow> old) a)
      else map_of (g_node g) m)"
  by (simp add: add_node_def update_conv' split: option.splits)

lemma has_node_add_node [simp]: "has_node (add_node n a g) m \<longleftrightarrow> m = n \<or> has_node g m"
  by (simp add: has_node_def node_add_node)

lemma g_node_add_edge [simp]:
  "has_node g u \<Longrightarrow> has_node g v \<Longrightarrow> g_node (add_edge u v w g) = g_node g"
  by (simp add: add_edge_def Let_def)

lemma has_node_add_edge [simp]:
  "has_node g u \<Longrightarrow> has_node g v \<Longrightarrow> has_node (add_edge u v w g) m = has_node g m"
  by (simp add: has_node_def)

lemma keys_add_node:
  "map fst (g_node (add_node n a g)) =
     (if has_node g n then map fst (g_node g) else map fst (g_node g) @ [n])"
proof (cases "map_of (g_node g) n")
  case None
  moreover from None have "n \<notin> fst ` set (g_node g)"
    by (simp add: map_of_eq_None_iff)
  ultimately show ?thesis
    by (simp add: add_node_def has_node_def update_keys)
next
  case (Some old)
  moreover from Some have "n \<in> fst ` set (g_node g)"
    by (rule map_of_Some_key)
  ultimately show ?thesis
    by (simp add: add_node_def has_node_def update_keys)
qed

lemma in_set_updateD: "p \<in> set (AList.update k v al) \<Longrightarrow> p = (k, v) \<or> p \<in> set al"
  by (induction al) (auto split: if_splits)

lemma adj_None_iff:
  assumes "wf_graph g"
  shows "map_of (g_adj g) n = None \<longleftrightarrow> map_of (g_node g) n = None"
proof -
  have "set (map fst (g_adj g)) = set (map fst (g_node g))"
    using assms by (simp add: wf_graph_def)
  then have "fst ` set (g_adj g) = fst ` set (g_node g)" by simp
  then show ?thesis by (simp add: map_of_eq_None_iff)
qed

lemma wf_add_node:
  assumes "wf_graph g"
  shows "wf_graph (add_node n a g)"
proof (cases "map_of (g_node g) n")
  case None
  then have nk: "n \<notin> set (map fst (g_node g))" by (simp add: map_of_eq_None_iff)
  have "\<forall>(m, nb) \<in> set (AList.update n [] (g_adj g)). distinct (map fst nb)"
    using assms by (auto simp: wf_graph_def dest!: in_set_updateD)
  with None nk assms show ?thesis
    by (simp add: wf_graph_def add_node_def update_keys)
next
  case (Some old)
  then have "n \<in> set (map fst (g_node g))"
    by (simp add: map_of_Some_key)
  with Some assms show ?thesis
    by (simp add: wf_graph_def add_node_def update_keys)
qed

lemma neighbours_distinct:
  "\<forall>(n, nb) \<in> set adj. distinct (map fst nb) \<Longrightarrow> distinct (map fst (neighbours adj u))"
  by (auto simp: neighbours_def split: option.splits dest: map_of_SomeD)

lemma inner_update:
  assumes "\<forall>(n, nb) \<in> set adj. distinct (map fst nb)"
  shows "\<forall>(n, nb) \<in> set (AList.update u (AList.update v w (neighbours adj u)) adj).
           distinct (map fst nb)"
proof -
  have "distinct (map fst (AList.update v w (neighbours adj u)))"
    using neighbours_distinct [OF assms, of u] by (simp add: distinct_update)
  with assms show ?thesis
    by (auto dest!: in_set_updateD)
qed

lemma wf_add_edge:
  assumes "wf_graph g" "has_node g u" "has_node g v"
  shows "wf_graph (add_edge u v w g)"
proof -
  let ?adj1 = "AList.update u (AList.update v w (neighbours (g_adj g) u)) (g_adj g)"
  let ?adj2 = "AList.update v (AList.update u w (neighbours ?adj1 v)) ?adj1"
  have inner0: "\<forall>(n, nb) \<in> set (g_adj g). distinct (map fst nb)"
    using assms(1) by (simp add: wf_graph_def)
  have ku: "u \<in> set (map fst (g_adj g))" and kv: "v \<in> set (map fst (g_adj g))"
    using assms by (simp_all add: wf_graph_def has_node_keys)
  have inner1: "\<forall>(n, nb) \<in> set ?adj1. distinct (map fst nb)"
    by (rule inner_update [OF inner0])
  have inner2: "\<forall>(n, nb) \<in> set ?adj2. distinct (map fst nb)"
    by (rule inner_update [OF inner1])
  have keys: "map fst ?adj2 = map fst (g_adj g)"
    using ku kv by (simp add: update_keys)
  have "add_edge u v w g = \<lparr>g_node = g_node g, g_adj = ?adj2\<rparr>"
    using assms(2,3) by (simp add: add_edge_def Let_def)
  then show ?thesis
    using assms(1) inner2 keys by (simp add: wf_graph_def)
qed

lemma edge_weight_add_node:
  assumes "wf_graph g"
  shows "edge_weight (add_node n a g) u v = edge_weight g u v"
proof (cases "map_of (g_node g) n")
  case None
  then have "map_of (g_adj g) n = None" using assms by (simp add: adj_None_iff)
  with None show ?thesis
    by (simp add: edge_weight_def add_node_def neighbours_def update_conv')
next
  case (Some old)
  then show ?thesis by (simp add: edge_weight_def add_node_def)
qed

lemma edge_weight_add_edge:
  assumes "has_node g a" "has_node g b"
  shows "edge_weight (add_edge a b w g) u v =
           (if (u = a \<and> v = b) \<or> (u = b \<and> v = a) then Some w else edge_weight g u v)"
proof -
  let ?adj1 = "AList.update a (AList.update b w (neighbours (g_adj g) a)) (g_adj g)"
  let ?adj2 = "AList.update b (AList.update a w (neighbours ?adj1 b)) ?adj1"
  have e: "add_edge a b w g = \<lparr>g_node = g_node g, g_adj = ?adj2\<rparr>"
    using assms by (simp add: add_edge_def Let_def)
  show ?thesis
    unfolding e edge_weight_def
    by (auto simp: neighbours_def update_conv' simp del: AList.update.simps split: option.splits)
qed

lemma edges_from_sound:
  "distinct (map fst adj) \<Longrightarrow> (u, v, w) \<in> set (edges_from seen adj) \<Longrightarrow>
     \<exists>nb. map_of adj u = Some nb \<and> (v, w) \<in> set nb"
proof (induction adj arbitrary: seen)
  case Nil
  then show ?case by simp
next
  case (Cons p adj)
  obtain n nb where p: "p = (n, nb)" by (cases p)
  from Cons.prems(2) consider
    (here) "u = n" "(v, w) \<in> set nb" | (later) "(u, v, w) \<in> set (edges_from (n # seen) adj)"
    by (auto simp: p)
  then show ?case
  proof cases
    case here
    then show ?thesis by (simp add: p)
  next
    case later
    with Cons.IH [of "n # seen"] Cons.prems(1)
    obtain nb' where nb': "map_of adj u = Some nb'" "(v, w) \<in> set nb'" by (auto simp: p)
    from nb'(1) have "u \<in> fst ` set adj" by (rule map_of_Some_key)
    with Cons.prems(1) have "u \<noteq> n" by (auto simp: p)
    with nb' show ?thesis by (simp add: p)
  qed
qed

lemma edges_sound:
  assumes "wf_graph g" "(u, v, w) \<in> set (edges g)"
  shows "edge_weight g u v = Some w"
proof -
  have d: "distinct (map fst (g_adj g))" using assms(1) by (simp add: wf_graph_def)
  from edges_from_sound [OF d] assms(2)
  obtain nb where nb: "map_of (g_adj g) u = Some nb" "(v, w) \<in> set nb"
    unfolding edges_def by blast
  from nb(1) have "(u, nb) \<in> set (g_adj g)" by (rule map_of_SomeD)
  with assms(1) have "distinct (map fst nb)" by (auto simp: wf_graph_def)
  with nb(2) have "map_of nb v = Some w" by simp
  with nb(1) show ?thesis by (simp add: edge_weight_def neighbours_def)
qed

lemma neighbour_keys: "set (map fst (neighbours (g_adj g) t)) = {v. edge_weight g t v \<noteq> None}"
  by (auto simp: edge_weight_def map_of_eq_None_iff)

lemma wf_neighbours_distinct: "wf_graph g \<Longrightarrow> distinct (map fst (neighbours (g_adj g) t))"
  by (rule neighbours_distinct) (simp add: wf_graph_def)

subsection \<open>One step of each loop\<close>

lemma G_tissue_step [simp]:
  "G (tissue_step c cnt i t st) = add_edge c t 5 (add_node t (tissue_attrs (cnt t)) (G st))"
  by (simp add: tissue_step_def Let_def)

lemma pos_tissue_step [simp]:
  "fixed_positions (tissue_step c cnt i t st) =
     (fixed_positions st)(t \<mapsto> (radius * cos (real i * golden_angle), radius * sin (real i * golden_angle)))"
  by (simp add: tissue_step_def Let_def)

lemma draws_tissue_step [simp]: "draws (tissue_step c cnt i t st) = draws st"
  by (simp add: tissue_step_def Let_def)

lemma has_node_tissue_step:
  "has_node (G st) c \<Longrightarrow> has_node (G (tissue_step c cnt i t st)) m \<longleftrightarrow> m = t \<or> has_node (G st) m"
  by simp

lemma wf_tissue_step:
  assumes "wf_build st" "has_node (G st) c"
  shows "wf_build (tissue_step c cnt i t st)"
  using assms by (simp add: wf_build_def wf_add_edge wf_add_node)

lemma node_tissue_step:
  assumes "has_node (G st) c"
  shows "map_of (g_node (G (tissue_step c cnt i t st))) m =
           (if m = t
            then Some (update_attrs (case map_of (g_node (G st)) t of None \<Rightarrow> no_attrs | Some old \<Rightarrow> old)
                         (tissue_attrs (cnt t)))
            else map_of (g_node (G st)) m)"
  using assms by (simp add: node_add_node)

lemma edge_tissue_step:
  assumes "wf_build st" "has_node (G st) c"
  shows "edge_weight (G (tissue_step c cnt i t st)) u v =
           (if (u = c \<and> v = t) \<or> (u = t \<and> v = c) then Some 5 else edge_weight (G st) u v)"
  using assms by (simp add: edge_weight_add_edge edge_weight_add_node wf_build_def)

lemma G_gene_step [simp]: "G (gene_step normal t n c r st) = gene_graph t r (G st)"
  by (simp add: gene_step_def gene_graph_def Let_def)

lemma pos_gene_step_other:
  "m \<noteq> gene_symbol r \<Longrightarrow> fixed_positions (gene_step normal t n c r st) m = fixed_positions st m"
  by (simp add: gene_step_def Let_def)

lemma pos_gene_step_dom:
  "fixed_positions (gene_step normal t n c r st) m \<noteq> None \<longleftrightarrow>
     m = gene_symbol r \<or> fixed_positions st m \<noteq> None"
  by (simp add: gene_step_def Let_def)

lemma has_node_gene_graph:
  "has_node g t \<Longrightarrow> has_node (gene_graph t r g) m \<longleftrightarrow> m = gene_symbol r \<or> has_node g m"
  by (auto simp: gene_graph_def)

lemma wf_gene_graph:
  assumes "wf_graph g" "has_node g t"
  shows "wf_graph (gene_graph t r g)"
  using assms by (simp add: gene_graph_def wf_add_edge wf_add_node)

lemma wf_gene_step:
  assumes "wf_build st" "has_node (G st) t"
  shows "wf_build (gene_step normal t n c r st)"
proof -
  have "fixed_positions (gene_step normal t n c r st) m \<noteq> None"
    if "has_node (gene_graph t r (G st)) m" for m
  proof -
    from that assms(2) have "m = gene_symbol r \<or> has_node (G st) m"
      by (simp add: has_node_gene_graph)
    with assms(1) have "m = gene_symbol r \<or> fixed_positions st m \<noteq> None"
      by (auto simp: wf_build_def)
    then show ?thesis by (simp only: pos_gene_step_dom)
  qed
  moreover have "wf_graph (gene_graph t r (G st))"
    using assms by (simp add: wf_build_def wf_gene_graph)
  ultimately show ?thesis
    unfolding wf_build_def by simp
qed

lemma node_gene_graph:
  assumes "has_node g t"
  shows "map_of (g_node (gene_graph t r g)) m =
           (case map_of (g_node g) m of
              Some a \<Rightarrow> Some a
            | None \<Rightarrow> if m = gene_symbol r then Some (gene_attrs (pcc r) t) else None)"
  using assms
  by (auto simp: gene_graph_def node_add_node has_node_def split: option.splits)

lemma edge_gene_graph:
  assumes "wf_graph g" "has_node g t"
  shows "edge_weight (gene_graph t r g) u v =
           (if (u = gene_symbol r \<and> v = t) \<or> (u = t \<and> v = gene_symbol r)
            then Some (pcc r * 3) else edge_weight g u v)"
  using assms
  by (simp add: gene_graph_def edge_weight_add_edge edge_weight_add_node)

subsection \<open>The loops\<close>

lemma add_genes_run_work:
  "add_genes cols normal t n rs st = run_work cols normal (map (\<lambda>r. (t, n, r)) rs) st"
  by (induction rs arbitrary: st) (simp_all split: option.splits)

lemma run_work_append:
  "run_work cols normal (xs @ ys) st =
     (case run_work cols normal xs st of Inl e \<Rightarrow> Inl e | Inr st' \<Rightarrow> run_work cols normal ys st')"
proof (induction xs arbitrary: st)
  case Nil
  then show ?case by simp
next
  case (Cons x xs)
  obtain t n r where x: "x = (t, n, r)" by (cases x)
  show ?case by (simp add: x Cons.IH split: option.splits)
qed

lemma add_all_genes_run_work:
  "add_all_genes cols sort_values normal fdf ts st = run_work cols normal (work sort_values fdf ts) st"
proof (induction ts arbitrary: st)
  case Nil
  then show ?case by (simp add: work_def)
next
  case (Cons t ts)
  have w: "work sort_values fdf (t # ts) =
             map (\<lambda>r. (t, length (tissue_rows sort_values fdf t), r)) (tissue_rows sort_values fdf t)
             @ work sort_values fdf ts"
    by (simp add: work_def)
  show ?case
    by (simp add: w run_work_append add_genes_run_work Cons.IH split: sum.splits)
qed

lemma has_node_add_tissues:
  "has_node (G st) c \<Longrightarrow>
     has_node (G (add_tissues c cnt i ts st)) m \<longleftrightarrow> m \<in> set ts \<or> has_node (G st) m"
  by (induction ts arbitrary: i st) auto

lemma wf_add_tissues:
  "wf_build st \<Longrightarrow> has_node (G st) c \<Longrightarrow> wf_build (add_tissues c cnt i ts st)"
  by (induction ts arbitrary: i st) (simp_all add: wf_tissue_step)

lemma edge_add_tissues:
  "wf_build st \<Longrightarrow> has_node (G st) c \<Longrightarrow>
     edge_weight (G (add_tissues c cnt i ts st)) u v =
       (if (u = c \<and> v \<in> set ts) \<or> (u \<in> set ts \<and> v = c) then Some 5 else edge_weight (G st) u v)"
proof (induction ts arbitrary: i st)
  case Nil
  then show ?case by simp
next
  case (Cons t ts)
  have "wf_build (tissue_step c cnt i t st)" "has_node (G (tissue_step c cnt i t st)) c"
    using Cons.prems by (simp_all add: wf_tissue_step)
  from Cons.IH [OF this] show ?case
    using Cons.prems by (auto simp: edge_tissue_step simp del: G_tissue_step)
qed

lemma update_tissue_attrs:
  "pcc_attr old = None \<Longrightarrow> tissue_attr old = None \<Longrightarrow> update_attrs old (tissue_attrs k) = tissue_attrs k"
  by (simp add: update_attrs_def tissue_attrs_def or_else_def)

lemma node_tissue_step_plain:
  assumes "has_node (G st) c" "plain_nodes (G st)"
  shows "map_of (g_node (G (tissue_step c cnt i t st))) m =
           (if m = t then Some (tissue_attrs (cnt t)) else map_of (g_node (G st)) m)"
proof -
  have "update_attrs (case map_of (g_node (G st)) t of None \<Rightarrow> no_attrs | Some old \<Rightarrow> old)
          (tissue_attrs (cnt t)) = tissue_attrs (cnt t)"
    using assms(2)
    by (auto simp: plain_nodes_def no_attrs_def intro!: update_tissue_attrs split: option.splits)
  then show ?thesis
    using assms(1) by (simp add: node_tissue_step del: G_tissue_step)
qed

lemma plain_tissue_step:
  assumes "has_node (G st) c" "plain_nodes (G st)"
  shows "plain_nodes (G (tissue_step c cnt i t st))"
  unfolding plain_nodes_def
  using assms(2)
  by (auto simp: node_tissue_step_plain [OF assms] plain_nodes_def tissue_attrs_def
           simp del: G_tissue_step split: if_splits)

lemma node_add_tissues:
  "has_node (G st) c \<Longrightarrow> plain_nodes (G st) \<Longrightarrow>
     map_of (g_node (G (add_tissues c cnt i ts st))) m =
       (if m \<in> set ts then Some (tissue_attrs (cnt m)) else map_of (g_node (G st)) m)"
proof (induction ts arbitrary: i st)
  case Nil
  then show ?case by simp
next
  case (Cons t ts)
  have "has_node (G (tissue_step c cnt i t st)) c" "plain_nodes (G (tissue_step c cnt i t st))"
    using Cons.prems by (simp_all add: plain_tissue_step del: G_tissue_step) simp
  from Cons.IH [OF this] show ?case
    using Cons.prems by (auto simp: node_tissue_step_plain simp del: G_tissue_step)
qed

lemma pos_add_tissues_other:
  "m \<notin> set ts \<Longrightarrow> fixed_positions (add_tissues c cnt i ts st) m = fixed_positions st m"
  by (induction ts arbitrary: i st) auto

lemma pos_add_tissues:
  "distinct ts \<Longrightarrow> k < length ts \<Longrightarrow>
     fixed_positions (add_tissues c cnt i ts st) (ts ! k) =
       Some (radius * cos (real (i + k) * golden_angle), radius * sin (real (i + k) * golden_angle))"
proof (induction ts arbitrary: i st k)
  case Nil
  then show ?case by simp
next
  case (Cons t ts)
  show ?case
  proof (cases k)
    case 0
    with Cons.prems show ?thesis by (simp add: pos_add_tissues_other)
  next
    case (Suc j)
    with Cons.prems Cons.IH [of j "Suc i" "tissue_step c cnt i t st"]
    show ?thesis by simp
  qed
qed

lemma set_unique [simp]: "set (unique xs) = set xs"
  by (induction xs) auto

lemma distinct_unique [simp]: "distinct (unique xs)"
  by (induction xs) auto

lemma find_append:
  "find P (xs @ ys) = (case find P xs of None \<Rightarrow> find P ys | Some x \<Rightarrow> Some x)"
  by (induction xs) auto

subsection \<open>The loop over the genes\<close>

lemma run_work_wf:
  "run_work cols normal xs st = Inr st' \<Longrightarrow> wf_build st \<Longrightarrow>
   \<forall>x\<in>set xs. has_node (G st) (fst x) \<Longrightarrow>
     wf_build st' \<and> (\<forall>m. has_node (G st) m \<longrightarrow> has_node (G st') m)"
proof (induction xs arbitrary: st)
  case Nil
  then show ?case by simp
next
  case (Cons x xs)
  obtain t n r where x: "x = (t, n, r)" by (cases x)
  from Cons.prems(1) obtain c where
    run: "run_work cols normal xs (gene_step normal t n c r st) = Inr st'"
    by (auto simp: x split: if_splits option.splits)
  let ?st = "gene_step normal t n c r st"
  have t: "has_node (G st) t" using Cons.prems(3) by (simp add: x)
  have wf: "wf_build ?st" using Cons.prems(2) t by (rule wf_gene_step)
  have mono: "has_node (G st) m \<Longrightarrow> has_node (G ?st) m" for m
    using t by (simp add: has_node_gene_graph)
  have "\<forall>y\<in>set xs. has_node (G ?st) (fst y)"
    using Cons.prems(3) mono by simp
  from Cons.IH [OF run wf this] mono show ?case by blast
qed

lemma run_work_nodes:
  "run_work cols normal xs st = Inr st' \<Longrightarrow> wf_build st \<Longrightarrow>
   \<forall>x\<in>set xs. has_node (G st) (fst x) \<Longrightarrow>
     map_of (g_node (G st')) m =
       (case map_of (g_node (G st)) m of
          Some a \<Rightarrow> Some a
        | None \<Rightarrow> (case find (\<lambda>(t, n, r). gene_symbol r = m) xs of
                     None \<Rightarrow> None
                   | Some (t, n, r) \<Rightarrow> Some (gene_attrs (pcc r) t)))"
proof (induction xs arbitrary: st)
  case Nil
  then show ?case by (simp split: option.splits)
next
  case (Cons x xs)
  obtain t n r where x: "x = (t, n, r)" by (cases x)
  from Cons.prems(1) obtain c where
    run: "run_work cols normal xs (gene_step normal t n c r st) = Inr st'"
    by (auto simp: x split: if_splits option.splits)
  let ?st = "gene_step normal t n c r st"
  have t: "has_node (G st) t" using Cons.prems(3) by (simp add: x)
  have wf: "wf_build ?st" using Cons.prems(2) t by (rule wf_gene_step)
  have "\<forall>y\<in>set xs. has_node (G ?st) (fst y)"
    using Cons.prems(3) t by (simp add: has_node_gene_graph)
  from Cons.IH [OF run wf this] show ?case
    by (simp add: x node_gene_graph [OF t] split: option.splits)
qed

lemma run_work_edges:
  "run_work cols normal xs st = Inr st' \<Longrightarrow> wf_build st \<Longrightarrow>
   \<forall>x\<in>set xs. has_node (G st) (fst x) \<Longrightarrow>
     edge_weight (G st') u v =
       (case find (\<lambda>(t, n, r). (u = gene_symbol r \<and> v = t) \<or> (u = t \<and> v = gene_symbol r)) (rev xs) of
          None \<Rightarrow> edge_weight (G st) u v
        | Some (t, n, r) \<Rightarrow> Some (pcc r * 3))"
proof (induction xs arbitrary: st)
  case Nil
  then show ?case by simp
next
  case (Cons x xs)
  obtain t n r where x: "x = (t, n, r)" by (cases x)
  from Cons.prems(1) obtain c where
    run: "run_work cols normal xs (gene_step normal t n c r st) = Inr st'"
    by (auto simp: x split: if_splits option.splits)
  let ?st = "gene_step normal t n c r st"
  have t: "has_node (G st) t" using Cons.prems(3) by (simp add: x)
  have wfg: "wf_graph (G st)" using Cons.prems(2) by (simp add: wf_build_def)
  have wf: "wf_build ?st" using Cons.prems(2) t by (rule wf_gene_step)
  have "\<forall>y\<in>set xs. has_node (G ?st) (fst y)"
    using Cons.prems(3) t by (simp add: has_node_gene_graph)
  from Cons.IH [OF run wf this] show ?case
    by (simp add: x find_append edge_gene_graph [OF wfg t] split: option.splits)
qed

lemma run_work_total:
  "''Gene Symbol'' \<in> set cols \<Longrightarrow> \<forall>x\<in>set xs. 0 \<le> 0.3 + 0.6 * (1 - pcc (snd (snd x))) \<Longrightarrow>
   wf_build st \<Longrightarrow> \<forall>x\<in>set xs. has_node (G st) (fst x) \<Longrightarrow>
     \<exists>st'. run_work cols normal xs st = Inr st'"
proof (induction xs arbitrary: st)
  case Nil
  then show ?case by simp
next
  case (Cons x xs)
  obtain t n r where x: "x = (t, n, r)" by (cases x)
  have t: "has_node (G st) t" using Cons.prems(4) by (simp add: x)
  with Cons.prems(3) obtain c where c: "fixed_positions st t = Some c"
    by (auto simp: wf_build_def)
  let ?st = "gene_step normal t n c r st"
  have wf: "wf_build ?st" using Cons.prems(3) t by (rule wf_gene_step)
  have nodes: "\<forall>y\<in>set xs. has_node (G ?st) (fst y)"
    using Cons.prems(4) t by (simp add: has_node_gene_graph)
  have sc: "\<forall>y\<in>set xs. 0 \<le> 0.3 + 0.6 * (1 - pcc (snd (snd y)))"
    using Cons.prems(2) by simp
  have "\<not> 0.3 + 0.6 * (1 - pcc r) < 0" using Cons.prems(2) by (simp add: x)
  with Cons.IH [OF Cons.prems(1) sc wf nodes] Cons.prems(1) c show ?case
    by (simp add: x)
qed

subsection \<open>The state before the loop over the genes\<close>

lemma G_initial_build: "G (initial_build c) = \<lparr>g_node = [(c, central_attrs)], g_adj = [(c, [])]\<rparr>"
  by (simp add: initial_build_def add_node_def empty_graph_def)

lemma wf_initial_build: "wf_build (initial_build c)"
  by (simp add: wf_build_def wf_graph_def G_initial_build has_node_def)
     (simp add: initial_build_def)

lemma has_node_initial_build [simp]: "has_node (G (initial_build c)) m \<longleftrightarrow> m = c"
  by (simp add: G_initial_build has_node_def)

lemma plain_initial_build: "plain_nodes (G (initial_build c))"
  by (simp add: plain_nodes_def G_initial_build central_attrs_def)

lemma edge_initial_build [simp]: "edge_weight (G (initial_build c)) u v = None"
  by (simp add: edge_weight_def G_initial_build neighbours_def)

lemma wf_tissues_placed: "wf_build (tissues_placed c df)"
  unfolding tissues_placed_def
  by (rule wf_add_tissues) (simp_all add: wf_initial_build)

lemma has_node_tissues_placed:
  "has_node (G (tissues_placed c df)) m \<longleftrightarrow> m \<in> tumor ` set (filtered_rows df) \<or> m = c"
  unfolding tissues_placed_def
  by (simp add: has_node_add_tissues)

lemma node_tissues_placed:
  "map_of (g_node (G (tissues_placed c df))) m =
     (if m \<in> tumor ` set (filtered_rows df)
      then Some (tissue_attrs (count_list (map tumor (filtered_rows df)) m))
      else if m = c then Some central_attrs else None)"
  unfolding tissues_placed_def
  by (simp add: node_add_tissues plain_initial_build) (simp add: G_initial_build)

lemma edge_tissues_placed:
  "edge_weight (G (tissues_placed c df)) u v =
     (if (u = c \<and> v \<in> tumor ` set (filtered_rows df)) \<or> (u \<in> tumor ` set (filtered_rows df) \<and> v = c)
      then Some 5 else None)"
  unfolding tissues_placed_def
  by (simp add: edge_add_tissues wf_initial_build)

subsection \<open>The state after it\<close>

lemma build_graph_InrD:
  assumes "build_graph sort_values normal c df = Inr st"
  shows "run_work (columns df) normal
           (work sort_values (filtered_rows df) (unique (map tumor (filtered_rows df))))
           (tissues_placed c df) = Inr st"
  using assms by (simp add: build_graph_def add_all_genes_run_work split: if_splits)

lemma work_tissue:
  "x \<in> set (work sort_values fdf ts) \<Longrightarrow> fst x \<in> set ts"
  by (auto simp: work_def)

lemma work_has_node:
  "\<forall>x\<in>set (work sort_values (filtered_rows df) (unique (map tumor (filtered_rows df)))).
     has_node (G (tissues_placed c df)) (fst x)"
  by (auto simp: has_node_tissues_placed dest!: work_tissue)

lemma build_graph_wf:
  assumes "build_graph sort_values normal c df = Inr st"
  shows "wf_build st"
  using run_work_wf [OF build_graph_InrD [OF assms] wf_tissues_placed work_has_node] by simp

lemma build_graph_nodes:
  assumes "build_graph sort_values normal c df = Inr st"
  shows "map_of (g_node (G st)) m =
     (if m \<in> tumor ` set (filtered_rows df)
      then Some (tissue_attrs (count_list (map tumor (filtered_rows df)) m))
      else if m = c then Some central_attrs
      else (case find (\<lambda>(t, n, r). gene_symbol r = m)
                   (work sort_values (filtered_rows df) (unique (map tumor (filtered_rows df)))) of
              None \<Rightarrow> None
            | Some (t, n, r) \<Rightarrow> Some (gene_attrs (pcc r) t)))"
  using run_work_nodes [OF build_graph_InrD [OF assms] wf_tissues_placed work_has_node, of m]
  by (simp add: node_tissues_placed)

lemma build_graph_edges:
  assumes "build_graph sort_values normal c df = Inr st"
  shows "edge_weight (G st) u v =
     (case find (\<lambda>(t, n, r). (u = gene_symbol r \<and> v = t) \<or> (u = t \<and> v = gene_symbol r))
             (rev (work sort_values (filtered_rows df) (unique (map tumor (filtered_rows df))))) of
        None \<Rightarrow> if (u = c \<and> v \<in> tumor ` set (filtered_rows df)) \<or>
                   (u \<in> tumor ` set (filtered_rows df) \<and> v = c)
                then Some 5 else None
      | Some (t, n, r) \<Rightarrow> Some (pcc r * 3))"
  by (subst run_work_edges [OF build_graph_InrD [OF assms] wf_tissues_placed work_has_node])
     (subst edge_tissues_placed, rule refl)

subsection \<open>Serialisation\<close>

lemma node_entries_sound:
  "node_entries c pos al = Inr es \<Longrightarrow> e \<in> set es \<Longrightarrow>
     \<exists>a. (j_id e, a) \<in> set al \<and> j_id e \<noteq> c \<and> node_type a = Some (j_node_type e) \<and>
         j_node_type e \<noteq> Central \<and> pos (j_id e) = Some (j_x e, j_y e) \<and>
         (j_node_type e = Tissue \<longrightarrow>
            j_gene_count e = Some (case gene_count a of None \<Rightarrow> 0 | Some k \<Rightarrow> k)) \<and>
         (j_node_type e = Gene \<longrightarrow>
            j_pcc e = Some (case pcc_attr a of None \<Rightarrow> 0 | Some p \<Rightarrow> p) \<and> j_tissue e = tissue_attr a)"
proof (induction al arbitrary: es)
  case Nil
  then show ?case by simp
next
  case (Cons p al)
  obtain n a where p: "p = (n, a)" by (cases p)
  show ?case
  proof (cases "n \<noteq> c \<and> (node_type a = Some Tissue \<or> node_type a = Some Gene)")
    case False
    with Cons.prems have "node_entries c pos al = Inr es"
      by (auto simp: p split: if_splits)
    from Cons.IH [OF this Cons.prems(2)] show ?thesis by auto
  next
    case True
    with Cons.prems(1) obtain x y es' e' where
      pos: "pos n = Some (x, y)" and rest: "node_entries c pos al = Inr es'" and
      es: "es = e' # es'" and
      e': "e' = (if node_type a = Some Tissue
                 then NodeJson n Tissue (Some (case gene_count a of None \<Rightarrow> 0 | Some k \<Rightarrow> k)) None None x y
                 else NodeJson n Gene None (Some (case pcc_attr a of None \<Rightarrow> 0 | Some q \<Rightarrow> q)) (tissue_attr a) x y)"
      by (auto simp: p split: if_splits option.splits sum.splits)
    show ?thesis
    proof (cases "e = e'")
      case True
      with \<open>n \<noteq> c \<and> _\<close> pos e' show ?thesis
        by (intro exI [of _ a]) (auto simp: p)
    next
      case False
      with Cons.prems(2) es have "e \<in> set es'" by simp
      from Cons.IH [OF rest this] show ?thesis by auto
    qed
  qed
qed

lemma nodes_data_InrD:
  assumes "nodes_data c st = Inr ns"
  shows "\<exists>x y es. fixed_positions st c = Some (x, y) \<and>
           node_entries c (fixed_positions st) (g_node (G st)) = Inr es \<and>
           ns = NodeJson c Central None None None x y # es"
  using assms by (auto simp: nodes_data_def split: option.splits sum.splits)

lemma links_data_sound:
  assumes "wf_graph g" "l \<in> set (links_data g)"
  shows "edge_weight g (l_source l) (l_target l) = Some (l_value l)"
proof -
  from assms(2) obtain s t w where "l = LinkJson s t w" "(s, t, w) \<in> set (edges g)"
    by (auto simp: links_data_def)
  with edges_sound [OF assms(1)] show ?thesis by simp
qed

subsection \<open>The whole function\<close>

lemma written_D:
  assumes "out_file (create_web_network e sort_values normal c) = Written ns ls"
  shows "\<exists>df st. csv e = Inr df \<and> build_graph sort_values normal c df = Inr st \<and>
           nodes_data c st = Inr ns \<and> ls = links_data (G st)"
  using assms
  by (auto simp: create_web_network_def try_body_def split: sum.splits if_splits prod.splits)

lemma returned_D:
  assumes "returned (create_web_network e sort_values normal c) = Some (g, pos)"
  shows "\<exists>df st. csv e = Inr df \<and> build_graph sort_values normal c df = Inr st \<and>
           g = G st \<and> pos = fixed_positions st"
  using assms
  by (auto simp: create_web_network_def try_body_def split: sum.splits if_splits prod.splits)

subsection \<open>Running the function on small tables\<close>

lemmas run_defs =
  create_web_network_def try_body_def quiet_env_def build_graph_def tissues_placed_def
  filtered_rows_def label_rows_def enumerate_eq_zip all_columns_def initial_build_def
  tissue_step_def gene_step_def tissue_rows_def stable_sort_desc_def max_genes_per_tissue_def
  add_node_def add_edge_def has_node_def neighbours_def empty_graph_def
  update_attrs_def or_else_def no_attrs_def central_attrs_def tissue_attrs_def gene_attrs_def
  nodes_data_def links_data_def edges_def no_noise_def Let_def

lemma run_repeated:
  "create_web_network (quiet_env repeated_gene_table) stable_sort_desc no_noise ''GCH1'' =
    \<lparr>returned =
       Some
        (\<lparr>g_node =
            [(''GCH1'', central_attrs),
             (''A'', tissue_attrs 1),
             (''B'', tissue_attrs 2),
             (''G'', gene_attrs (9 / 10) ''A'')],
          g_adj =
            [(''GCH1'', [(''A'', 5), (''B'', 5)]),
             (''A'', [(''GCH1'', 5), (''G'', 27 / 10)]),
             (''B'', [(''GCH1'', 5), (''G'', 51 / 20)]),
             (''G'', [(''A'', 27 / 10), (''B'', 51 / 20)])]\<rparr>,
         [''GCH1'' \<mapsto> (0, 0), ''A'' \<mapsto> (400, 0),
          ''B'' \<mapsto> (400 * cos golden_angle, 400 * sin golden_angle),
          ''G'' \<mapsto> (400 * cos golden_angle + 145 / 2, 400 * sin golden_angle)]),
     out_file =
       Written
        [NodeJson ''GCH1'' Central None None None 0 0,
         NodeJson ''A'' Tissue (Some 1) None None 400 0,
         NodeJson ''B'' Tissue (Some 2) None None (400 * cos golden_angle) (400 * sin golden_angle),
         NodeJson ''G'' Gene None (Some (9 / 10)) (Some ''A'')
           (400 * cos golden_angle + 145 / 2) (400 * sin golden_angle)]
        [LinkJson ''GCH1'' ''A'' 5, LinkJson ''GCH1'' ''B'' 5,
         LinkJson ''A'' ''G'' (27 / 10), LinkJson ''B'' ''G'' (51 / 20)],
     console = []\<rparr>"
  by (simp add: run_defs repeated_gene_table_def upt_rec radius_def numeral_2_eq_2 cong: let_weak_cong)

lemma run_self_row:
  "create_web_network (quiet_env self_row_table) stable_sort_desc normal ''GCH1'' =
    \<lparr>returned =
       Some
        (\<lparr>g_node = [(''GCH1'', central_attrs), (''Liver'', tissue_attrs 1)],
          g_adj = [(''GCH1'', [(''Liver'', 3)]), (''Liver'', [(''GCH1'', 3)])]\<rparr>,
         [''Liver'' \<mapsto> (400, 0),
          ''GCH1'' \<mapsto>
            (400 + (50 + normal 1 (3 / 10) * 50) * cos (normal 0 (3 / 10) / 2),
             (50 + normal 1 (3 / 10) * 50) * sin (normal 0 (3 / 10) / 2))]),
     out_file =
       Written
        [NodeJson ''GCH1'' Central None None None
           (400 + (50 + normal 1 (3 / 10) * 50) * cos (normal 0 (3 / 10) / 2))
           ((50 + normal 1 (3 / 10) * 50) * sin (normal 0 (3 / 10) / 2)),
         NodeJson ''Liver'' Tissue (Some 1) None None 400 0]
        [LinkJson ''GCH1'' ''Liver'' 3],
     console = []\<rparr>"
  by (simp add: run_defs self_row_table_def upt_rec radius_def cong: let_weak_cong)

lemma run_two_gene_noise:
  "create_web_network (quiet_env two_gene_table) stable_sort_desc normal ''GCH1'' =
    \<lparr>returned =
       Some
        (\<lparr>g_node =
            [(''GCH1'', central_attrs),
             (''T'', tissue_attrs 2),
             (''G2'', gene_attrs (19 / 20) ''T''),
             (''G1'', gene_attrs (9 / 10) ''T'')],
          g_adj =
            [(''GCH1'', [(''T'', 5)]),
             (''T'', [(''GCH1'', 5), (''G2'', 57 / 20), (''G1'', 27 / 10)]),
             (''G2'', [(''T'', 57 / 20)]),
             (''G1'', [(''T'', 27 / 10)])]\<rparr>,
         [''GCH1'' \<mapsto> (0, 0), ''T'' \<mapsto> (400, 0),
          ''G2'' \<mapsto>
            (400 - (115 / 2 + normal 1 (33 / 100) * 50) * cos (normal 0 (33 / 100) / 2),
             - ((115 / 2 + normal 1 (33 / 100) * 50) * sin (normal 0 (33 / 100) / 2))),
          ''G1'' \<mapsto>
            (400 + (65 + normal 3 (9 / 25) * 50) * cos (normal 2 (9 / 25) / 2),
             (65 + normal 3 (9 / 25) * 50) * sin (normal 2 (9 / 25) / 2))]),
     out_file =
       Written
        [NodeJson ''GCH1'' Central None None None 0 0,
         NodeJson ''T'' Tissue (Some 2) None None 400 0,
         NodeJson ''G2'' Gene None (Some (19 / 20)) (Some ''T'')
           (400 - (115 / 2 + normal 1 (33 / 100) * 50) * cos (normal 0 (33 / 100) / 2))
           (- ((115 / 2 + normal 1 (33 / 100) * 50) * sin (normal 0 (33 / 100) / 2))),
         NodeJson ''G1'' Gene None (Some (9 / 10)) (Some ''T'')
           (400 + (65 + normal 3 (9 / 25) * 50) * cos (normal 2 (9 / 25) / 2))
           ((65 + normal 3 (9 / 25) * 50) * sin (normal 2 (9 / 25) / 2))]
        [LinkJson ''GCH1'' ''T'' 5, LinkJson ''T'' ''G2'' (57 / 20),
         LinkJson ''T'' ''G1'' (27 / 10)],
     console = []\<rparr>"
  by (simp add: run_defs two_gene_table_def upt_rec radius_def numeral_2_eq_2 numeral_3_eq_3
        cong: let_weak_cong)

lemma run_viewer_fails:
  "create_web_network (viewer_fails_env two_gene_table) stable_sort_desc no_noise ''GCH1'' =
    \<lparr>returned = None,
     out_file =
       Written
        [NodeJson ''GCH1'' Central None None None 0 0,
         NodeJson ''T'' Tissue (Some 2) None None 400 0,
         NodeJson ''G2'' Gene None (Some (19 / 20)) (Some ''T'') (685 / 2) 0,
         NodeJson ''G1'' Gene None (Some (9 / 10)) (Some ''T'') 465 0]
        [LinkJson ''GCH1'' ''T'' 5, LinkJson ''T'' ''G2'' (57 / 20),
         LinkJson ''T'' ''G1'' (27 / 10)],
     console = [PrintError BrowserError, PrintTraceback BrowserError]\<rparr>"
  by (simp add: run_defs viewer_fails_env_def two_gene_table_def upt_rec radius_def numeral_2_eq_2
        cong: let_weak_cong)

lemma run_no_gene_column:
  "create_web_network (quiet_env no_gene_column_table) stable_sort_desc no_noise ''GCH1'' =
    \<lparr>returned =
       Some (\<lparr>g_node = [(''GCH1'', central_attrs)], g_adj = [(''GCH1'', [])]\<rparr>,
             [''GCH1'' \<mapsto> (0, 0)]),
     out_file = Written [NodeJson ''GCH1'' Central None None None 0 0] [],
     console = []\<rparr>"
  by (simp add: run_defs no_gene_column_table_def upt_rec cong: let_weak_cong)

lemma run_no_pcc_column:
  "create_web_network (quiet_env no_pcc_column_table) stable_sort_desc no_noise ''GCH1'' =
    \<lparr>returned = None, out_file = NotWritten,
     console = [PrintError (KeyError ''PCC''), PrintTraceback (KeyError ''PCC'')]\<rparr>"
  by (simp add: run_defs no_pcc_column_table_def)

lemma run_tissue_named_gene:
  "create_web_network (quiet_env tissue_named_gene_table) stable_sort_desc normal ''GCH1'' =
    \<lparr>returned =
       Some
        (\<lparr>g_node = [(''GCH1'', central_attrs), (''Liver'', tissue_attrs 1)],
          g_adj = [(''GCH1'', [(''Liver'', 5)]),
                   (''Liver'', [(''GCH1'', 5), (''Liver'', 21 / 8)])]\<rparr>,
         [''GCH1'' \<mapsto> (0, 0),
          ''Liver'' \<mapsto>
            (400 + (275 / 4 + normal 1 (3 / 8) * 50) * cos (normal 0 (3 / 8) / 2),
             (275 / 4 + normal 1 (3 / 8) * 50) * sin (normal 0 (3 / 8) / 2))]),
     out_file =
       Written
        [NodeJson ''GCH1'' Central None None None 0 0,
         NodeJson ''Liver'' Tissue (Some 1) None None
           (400 + (275 / 4 + normal 1 (3 / 8) * 50) * cos (normal 0 (3 / 8) / 2))
           ((275 / 4 + normal 1 (3 / 8) * 50) * sin (normal 0 (3 / 8) / 2))]
        [LinkJson ''GCH1'' ''Liver'' 5, LinkJson ''Liver'' ''Liver'' (21 / 8)],
     console = []\<rparr>"
  by (simp add: run_defs tissue_named_gene_table_def upt_rec radius_def cong: let_weak_cong)

subsection \<open>Counting the nodes of one kind\<close>

lemma length_filter_alist:
  assumes "distinct (map fst al)"
  shows "length (filter (\<lambda>(n, a). Q a) al) = card {n. \<exists>a. map_of al n = Some a \<and> Q a}"
proof -
  let ?sel = "filter (\<lambda>(n, a). Q a) al"
  have d: "distinct (map fst ?sel)"
    using assms by (rule distinct_map_filter)
  have "set (map fst ?sel) = {n. \<exists>a. map_of al n = Some a \<and> Q a}"
    using assms by (force simp: map_of_eq_Some_iff)
  with distinct_card [OF d] show ?thesis by simp
qed

subsection \<open>Where the rows of the loops come from\<close>

lemma sorts_desc_set: "sorts_desc sort_values \<Longrightarrow> set (sort_values xs) = set xs"
  unfolding sorts_desc_def by (metis mset_eq_setD)

lemma tissue_rows_subset:
  assumes "sorts_desc sort_values" "r \<in> set (tissue_rows sort_values fdf t)"
  shows "r \<in> set fdf \<and> tumor r = t"
proof -
  from assms(2) have "r \<in> set (sort_values (filter (\<lambda>r. tumor r = t) fdf))"
    by (auto simp: tissue_rows_def Let_def split: if_splits dest: in_set_takeD)
  with sorts_desc_set [OF assms(1)] show ?thesis by simp
qed

lemma work_row:
  assumes "sorts_desc sort_values" "(t, n, r) \<in> set (work sort_values fdf ts)"
  shows "r \<in> set fdf \<and> tumor r = t"
  using assms(2) tissue_rows_subset [OF assms(1)] by (auto simp: work_def)

lemma filtered_rows_D:
  "r \<in> set (filtered_rows df) \<Longrightarrow> r \<in> set (label_rows (cells df)) \<and> 0.8 \<le> pcc r"
  by (simp add: filtered_rows_def)

lemma find_SomeD: "find P xs = Some x \<Longrightarrow> x \<in> set xs \<and> P x"
  by (auto simp: find_Some_iff)

lemma count_list_map: "count_list (map f xs) y = length (filter (\<lambda>x. f x = y) xs)"
  by (induction xs) auto

subsection \<open>What the serialised arrays hold\<close>

lemma written_node:
  assumes "out_file (create_web_network e sort_values normal c) = Written ns ls"
    and "csv e = Inr df" and "n \<in> set ns" and "j_node_type n \<noteq> Central"
  shows "\<exists>st a. build_graph sort_values normal c df = Inr st \<and>
           map_of (g_node (G st)) (j_id n) = Some a \<and> j_id n \<noteq> c \<and>
           node_type a = Some (j_node_type n) \<and>
           fixed_positions st (j_id n) = Some (j_x n, j_y n) \<and>
           (j_node_type n = Tissue \<longrightarrow>
              j_gene_count n = Some (case gene_count a of None \<Rightarrow> 0 | Some k \<Rightarrow> k)) \<and>
           (j_node_type n = Gene \<longrightarrow>
              j_pcc n = Some (case pcc_attr a of None \<Rightarrow> 0 | Some p \<Rightarrow> p) \<and>
              j_tissue n = tissue_attr a)"
proof -
  from written_D [OF assms(1)] assms(2) obtain st where
    st: "build_graph sort_values normal c df = Inr st" and nd: "nodes_data c st = Inr ns"
    by auto
  from nodes_data_InrD [OF nd] obtain x y es where
    es: "node_entries c (fixed_positions st) (g_node (G st)) = Inr es" and
    ns: "ns = NodeJson c Central None None None x y # es"
    by blast
  from assms(3,4) ns have "n \<in> set es" by auto
  from node_entries_sound [OF es this] obtain a where
    a: "(j_id n, a) \<in> set (g_node (G st))" and
    rest: "j_id n \<noteq> c" "node_type a = Some (j_node_type n)"
      "fixed_positions st (j_id n) = Some (j_x n, j_y n)"
      "j_node_type n = Tissue \<longrightarrow>
         j_gene_count n = Some (case gene_count a of None \<Rightarrow> 0 | Some k \<Rightarrow> k)"
      "j_node_type n = Gene \<longrightarrow>
         j_pcc n = Some (case pcc_attr a of None \<Rightarrow> 0 | Some p \<Rightarrow> p) \<and> j_tissue n = tissue_attr a"
    by blast
  have "distinct (map fst (g_node (G st)))"
    using build_graph_wf [OF st] by (simp add: wf_build_def wf_graph_def)
  with a have "map_of (g_node (G st)) (j_id n) = Some a" by simp
  with st rest show ?thesis by blast
qed

lemma written_link:
  assumes "out_file (create_web_network e sort_values normal c) = Written ns ls"
    and "csv e = Inr df" and "l \<in> set ls"
  shows "\<exists>st. build_graph sort_values normal c df = Inr st \<and>
           edge_weight (G st) (l_source l) (l_target l) = Some (l_value l)"
proof -
  from written_D [OF assms(1)] assms(2) obtain st where
    st: "build_graph sort_values normal c df = Inr st" and ls: "ls = links_data (G st)"
    by auto
  have "wf_graph (G st)" using build_graph_wf [OF st] by (simp add: wf_build_def)
  from links_data_sound [OF this] assms(3) ls st show ?thesis by blast
qed

text \<open>A node of the output that is a tissue or a gene, traced back to the rows.\<close>

lemma written_tissue:
  assumes "out_file (create_web_network e sort_values normal c) = Written ns ls"
    and "csv e = Inr df" and "n \<in> set ns" and "j_node_type n = Tissue"
  shows "j_id n \<in> tumor ` set (filtered_rows df) \<and>
         j_gene_count n = Some (count_list (map tumor (filtered_rows df)) (j_id n))"
proof -
  from written_node [OF assms(1-3)] assms(4) obtain st a where
    st: "build_graph sort_values normal c df = Inr st" and
    a: "map_of (g_node (G st)) (j_id n) = Some a" "node_type a = Some Tissue" and
    gc: "j_gene_count n = Some (case gene_count a of None \<Rightarrow> 0 | Some k \<Rightarrow> k)"
    by auto
  from a have "j_id n \<in> tumor ` set (filtered_rows df) \<and>
      a = tissue_attrs (count_list (map tumor (filtered_rows df)) (j_id n))"
    unfolding build_graph_nodes [OF st]
    by (auto simp: central_attrs_def gene_attrs_def split: if_splits option.splits)
  with gc show ?thesis by (simp add: tissue_attrs_def)
qed

lemma written_gene:
  assumes "out_file (create_web_network e sort_values normal c) = Written ns ls"
    and "csv e = Inr df" and "n \<in> set ns" and "j_node_type n = Gene"
  shows "\<exists>t k r. find (\<lambda>(t, k, r). gene_symbol r = j_id n)
                  (work sort_values (filtered_rows df) (unique (map tumor (filtered_rows df))))
                = Some (t, k, r) \<and> j_pcc n = Some (pcc r) \<and> j_tissue n = Some t"
proof -
  from written_node [OF assms(1-3)] assms(4) obtain st a where
    st: "build_graph sort_values normal c df = Inr st" and
    a: "map_of (g_node (G st)) (j_id n) = Some a" "node_type a = Some Gene" and
    at: "j_pcc n = Some (case pcc_attr a of None \<Rightarrow> 0 | Some p \<Rightarrow> p)" "j_tissue n = tissue_attr a"
    by auto
  from a obtain t k r where
    "find (\<lambda>(t, k, r). gene_symbol r = j_id n)
       (work sort_values (filtered_rows df) (unique (map tumor (filtered_rows df)))) = Some (t, k, r)"
    "a = gene_attrs (pcc r) t"
    unfolding build_graph_nodes [OF st]
    by (auto simp: central_attrs_def tissue_attrs_def split: if_splits option.splits)
  with at show ?thesis by (auto simp: gene_attrs_def)
qed

lemma sorts_desc_stable: "sorts_desc stable_sort_desc"
proof -
  have "sorted_wrt (\<lambda>a b. pcc b \<le> pcc a) (sort_key (\<lambda>r. - pcc r) xs)" for xs :: "row list"
    using sorted_sort_key [of "\<lambda>r. - pcc r" xs] by (simp add: sorted_map)
  then show ?thesis by (simp add: sorts_desc_def stable_sort_desc_def)
qed

lemma csv_quiet_env [simp]: "csv (quiet_env df) = Inr df"
  by (simp add: quiet_env_def)

lemma filtered_repeated:
  "filtered_rows repeated_gene_table =
     [Row 0 ''G'' ''A'' (9 / 10), Row 1 ''G'' ''B'' (19 / 20), Row 2 ''G'' ''B'' (17 / 20)]"
  by (simp add: filtered_rows_def repeated_gene_table_def label_rows_def enumerate_eq_zip upt_rec)

lemma work_repeated:
  "work stable_sort_desc (filtered_rows repeated_gene_table)
     (unique (map tumor (filtered_rows repeated_gene_table))) =
   [(''A'', 1, Row 0 ''G'' ''A'' (9 / 10)),
    (''B'', 2, Row 1 ''G'' ''B'' (19 / 20)),
    (''B'', 2, Row 2 ''G'' ''B'' (17 / 20))]"
  by (simp add: filtered_repeated work_def tissue_rows_def stable_sort_desc_def
        max_genes_per_tissue_def)

lemma node_entries_tissue_pcc:
  "node_entries c pos al = Inr es \<Longrightarrow> e \<in> set es \<Longrightarrow> j_node_type e = Tissue \<Longrightarrow>
     j_pcc e = None"
proof (induction al arbitrary: es)
  case Nil
  then show ?case by simp
next
  case (Cons p al)
  obtain n a where p: "p = (n, a)" by (cases p)
  from Cons.prems(1) consider
    (skip) "node_entries c pos al = Inr es"
  | (tissue) x y es' where "node_entries c pos al = Inr es'"
      "es = NodeJson n Tissue (Some (case gene_count a of None \<Rightarrow> 0 | Some k \<Rightarrow> k)) None None x y # es'"
  | (gene) x y es' where "node_entries c pos al = Inr es'"
      "es = NodeJson n Gene None (Some (case pcc_attr a of None \<Rightarrow> 0 | Some q \<Rightarrow> q)) (tissue_attr a) x y # es'"
    by (auto simp: p split: if_splits option.splits sum.splits)
  then show ?case
  proof cases
    case skip
    from Cons.IH [OF this Cons.prems(2,3)] show ?thesis .
  next
    case tissue
    with Cons.prems(2,3) Cons.IH [OF tissue(1)] show ?thesis by auto
  next
    case gene
    with Cons.prems(2,3) Cons.IH [OF gene(1)] show ?thesis by auto
  qed
qed

lemma tissue_rows_two_gene:
  "tissue_rows stable_sort_desc (filtered_rows two_gene_table) ''T'' =
     [Row 1 ''G2'' ''T'' (19 / 20), Row 0 ''G1'' ''T'' (9 / 10)]"
  by (simp add: filtered_rows_def two_gene_table_def label_rows_def enumerate_eq_zip upt_rec
        tissue_rows_def stable_sort_desc_def max_genes_per_tissue_def)

lemma work_nonempty:
  assumes "sorts_desc sort_values" "fdf \<noteq> []"
  shows "work sort_values fdf (unique (map tumor fdf)) \<noteq> []"
proof -
  from assms(2) obtain r rs where fdf: "fdf = r # rs" by (cases fdf) auto
  let ?sel = "filter (\<lambda>x. tumor x = tumor r) fdf"
  have "mset (sort_values ?sel) = mset ?sel"
    using assms(1) by (simp add: sorts_desc_def)
  moreover have "?sel \<noteq> []" by (simp add: fdf)
  ultimately have "sort_values ?sel \<noteq> []" by auto
  then have "tissue_rows sort_values fdf (tumor r) \<noteq> []"
    by (simp add: tissue_rows_def Let_def max_genes_per_tissue_def)
  then show ?thesis by (simp add: work_def fdf)
qed

lemma build_graph_no_gene_column:
  assumes "sorts_desc sort_values" "''Gene Symbol'' \<notin> set (columns df)" "filtered_rows df \<noteq> []"
  shows "\<exists>err. build_graph sort_values normal c df = Inl err"
proof (cases "''PCC'' \<in> set (columns df) \<and> ''Tumor'' \<in> set (columns df)")
  case False
  then show ?thesis by (auto simp: build_graph_def)
next
  case True
  from work_nonempty [OF assms(1,3)] obtain x xs where
    "work sort_values (filtered_rows df) (unique (map tumor (filtered_rows df))) = x # xs"
    by (cases "work sort_values (filtered_rows df) (unique (map tumor (filtered_rows df)))") auto
  with True assms(2) show ?thesis
    by (cases x) (simp add: build_graph_def add_all_genes_run_work)
qed

subsection \<open>The gene nodes attached to a tissue\<close>

lemma work_mem:
  "(t, n, r) \<in> set (work sort_values fdf ts) \<longleftrightarrow>
     t \<in> set ts \<and> n = length (tissue_rows sort_values fdf t) \<and> r \<in> set (tissue_rows sort_values fdf t)"
  by (auto simp: work_def)

lemma tissue_rows_take:
  "tissue_rows sort_values fdf t = take 150 (sort_values (filter (\<lambda>r. tumor r = t) fdf))"
  by (simp add: tissue_rows_def Let_def max_genes_per_tissue_def)

lemma build_graph_kind:
  assumes "build_graph sort_values normal c df = Inr st"
  shows "kind_of (G st) v = Some Gene \<longleftrightarrow>
           v \<notin> tumor ` set (filtered_rows df) \<and> v \<noteq> c \<and>
           (\<exists>t n r. (t, n, r) \<in> set (work sort_values (filtered_rows df)
                                      (unique (map tumor (filtered_rows df)))) \<and> gene_symbol r = v)"
proof -
  let ?wk = "work sort_values (filtered_rows df) (unique (map tumor (filtered_rows df)))"
  let ?P = "\<lambda>(t, n, r). gene_symbol r = v"
  show ?thesis
  proof (cases "find ?P ?wk")
    case None
    then have "\<not> (\<exists>t n r. (t, n, r) \<in> set ?wk \<and> gene_symbol r = v)"
      by (auto simp: find_None_iff)
    with None show ?thesis
      by (auto simp: kind_of_def build_graph_nodes [OF assms] tissue_attrs_def central_attrs_def)
  next
    case (Some x)
    obtain t n r where x: "x = (t, n, r)" by (cases x)
    from find_SomeD [OF Some] have "(t, n, r) \<in> set ?wk" "gene_symbol r = v" by (auto simp: x)
    with Some show ?thesis
      by (auto simp: kind_of_def build_graph_nodes [OF assms] tissue_attrs_def central_attrs_def
            gene_attrs_def x)
  qed
qed

lemma build_graph_gene_edge:
  assumes "build_graph sort_values normal c df = Inr st"
    and "t \<in> tumor ` set (filtered_rows df)"
    and "v \<notin> tumor ` set (filtered_rows df)" and "v \<noteq> c"
  shows "edge_weight (G st) t v \<noteq> None \<longleftrightarrow>
           v \<in> gene_symbol ` set (tissue_rows sort_values (filtered_rows df) t)"
proof -
  let ?fdf = "filtered_rows df"
  let ?wk = "work sort_values ?fdf (unique (map tumor ?fdf))"
  let ?P = "\<lambda>(t', n, r). (t = gene_symbol r \<and> v = t') \<or> (t = t' \<and> v = gene_symbol r)"
  have P: "(\<exists>x\<in>set ?wk. ?P x) \<longleftrightarrow> v \<in> gene_symbol ` set (tissue_rows sort_values ?fdf t)"
  proof
    assume "\<exists>x\<in>set ?wk. ?P x"
    then obtain t' n r where m: "(t', n, r) \<in> set ?wk" and
      p: "(t = gene_symbol r \<and> v = t') \<or> (t = t' \<and> v = gene_symbol r)"
      by auto
    from work_tissue [OF m] have "t' \<in> tumor ` set ?fdf" by simp
    with p assms(3) have "t = t'" "v = gene_symbol r" by auto
    with m show "v \<in> gene_symbol ` set (tissue_rows sort_values ?fdf t)"
      by (auto simp: work_mem)
  next
    assume "v \<in> gene_symbol ` set (tissue_rows sort_values ?fdf t)"
    then obtain r where "r \<in> set (tissue_rows sort_values ?fdf t)" "v = gene_symbol r" by auto
    with assms(2) have "(t, length (tissue_rows sort_values ?fdf t), r) \<in> set ?wk"
      by (simp add: work_mem)
    with \<open>v = gene_symbol r\<close> show "\<exists>x\<in>set ?wk. ?P x" by force
  qed
  show ?thesis
  proof (cases "find ?P (rev ?wk)")
    case None
    then have "\<not> (\<exists>x\<in>set ?wk. ?P x)" by (auto simp: find_None_iff)
    with None P assms(3,4) show ?thesis
      by (simp add: build_graph_edges [OF assms(1)])
  next
    case (Some x)
    from find_SomeD [OF Some] have "\<exists>x\<in>set ?wk. ?P x" by auto
    with Some P show ?thesis
      by (cases x) (simp add: build_graph_edges [OF assms(1)])
  qed
qed

lemma gene_neighbours_set:
  assumes "build_graph sort_values normal c df = Inr st"
    and "t \<in> tumor ` set (filtered_rows df)"
  shows "set (gene_neighbours (G st) t) =
           gene_symbol ` set (tissue_rows sort_values (filtered_rows df) t)
             - (insert c (tumor ` set (filtered_rows df)))"
proof -
  let ?fdf = "filtered_rows df"
  have "set (gene_neighbours (G st) t) =
          {v. edge_weight (G st) t v \<noteq> None \<and> kind_of (G st) v = Some Gene}"
    using neighbour_keys [of "G st" t] by (auto simp: gene_neighbours_def)
  also have "\<dots> = gene_symbol ` set (tissue_rows sort_values ?fdf t) - (insert c (tumor ` set ?fdf))"
  proof (intro set_eqI iffI)
    fix v assume "v \<in> {v. edge_weight (G st) t v \<noteq> None \<and> kind_of (G st) v = Some Gene}"
    then have e: "edge_weight (G st) t v \<noteq> None" and k: "kind_of (G st) v = Some Gene" by auto
    from k have nr: "v \<notin> tumor ` set ?fdf" "v \<noteq> c"
      by (simp_all add: build_graph_kind [OF assms(1)])
    with e build_graph_gene_edge [OF assms nr]
    show "v \<in> gene_symbol ` set (tissue_rows sort_values ?fdf t) - (insert c (tumor ` set ?fdf))"
      by simp
  next
    fix v assume "v \<in> gene_symbol ` set (tissue_rows sort_values ?fdf t) - (insert c (tumor ` set ?fdf))"
    then have m: "v \<in> gene_symbol ` set (tissue_rows sort_values ?fdf t)"
      and nr: "v \<notin> tumor ` set ?fdf" "v \<noteq> c" by auto
    from m obtain r where r: "r \<in> set (tissue_rows sort_values ?fdf t)" "v = gene_symbol r" by auto
    with assms(2) have "(t, length (tissue_rows sort_values ?fdf t), r)
        \<in> set (work sort_values ?fdf (unique (map tumor ?fdf)))"
      by (simp add: work_mem)
    with r(2) nr have "kind_of (G st) v = Some Gene"
      unfolding build_graph_kind [OF assms(1)] by blast
    moreover from m build_graph_gene_edge [OF assms nr] have "edge_weight (G st) t v \<noteq> None"
      by blast
    ultimately show "v \<in> {v. edge_weight (G st) t v \<noteq> None \<and> kind_of (G st) v = Some Gene}"
      by simp
  qed
  finally show ?thesis .
qed

lemma gene_neighbours_distinct:
  assumes "build_graph sort_values normal c df = Inr st"
  shows "distinct (gene_neighbours (G st) t)"
proof -
  have "wf_graph (G st)" using build_graph_wf [OF assms] by (simp add: wf_build_def)
  then show ?thesis
    unfolding gene_neighbours_def by (intro distinct_filter wf_neighbours_distinct)
qed

subsection \<open>When the function returns a graph\<close>

lemma node_entries_total:
  "\<forall>p\<in>set al. pos (fst p) \<noteq> None \<Longrightarrow> \<exists>es. node_entries c pos al = Inr es"
proof (induction al)
  case Nil
  then show ?case by simp
next
  case (Cons p al)
  obtain n a where p: "p = (n, a)" by (cases p)
  from Cons obtain es xy where "node_entries c pos al = Inr es" "pos n = Some xy"
    by (auto simp: p)
  then show ?case by (cases xy) (simp add: p)
qed

lemma nodes_data_total:
  assumes "wf_build st" "has_node (G st) c"
  shows "\<exists>ns. nodes_data c st = Inr ns"
proof -
  have "pos_ok": "\<forall>p\<in>set (g_node (G st)). fixed_positions st (fst p) \<noteq> None"
    using assms(1) by (auto simp: wf_build_def has_node_keys)
  from node_entries_total [OF this, of c] obtain es where
    "node_entries c (fixed_positions st) (g_node (G st)) = Inr es" by blast
  moreover from assms obtain xy where "fixed_positions st c = Some xy"
    by (auto simp: wf_build_def)
  ultimately show ?thesis by (cases xy) (simp add: nodes_data_def)
qed

lemma build_graph_total:
  assumes "sorts_desc sort_values"
    and "set all_columns \<subseteq> set (columns df)"
    and "\<forall>r\<in>set (filtered_rows df). pcc r \<le> 3 / 2"
  shows "\<exists>st. build_graph sort_values normal c df = Inr st"
proof -
  let ?wk = "work sort_values (filtered_rows df) (unique (map tumor (filtered_rows df)))"
  have "\<forall>x\<in>set ?wk. 0 \<le> 0.3 + 0.6 * (1 - pcc (snd (snd x)))"
  proof
    fix x assume x: "x \<in> set ?wk"
    obtain t n r where xx: "x = (t, n, r)" by (cases x)
    from work_row [OF assms(1)] x have "r \<in> set (filtered_rows df)" by (auto simp: xx)
    with assms(3) have "pcc r \<le> 3 / 2" by blast
    then have "0 \<le> 0.3 + 0.6 * (1 - pcc r)" by argo
    then show "0 \<le> 0.3 + 0.6 * (1 - pcc (snd (snd x)))" by (simp only: xx snd_conv)
  qed
  moreover have "''Gene Symbol'' \<in> set (columns df)"
    using assms(2) by (simp add: all_columns_def)
  ultimately have "\<exists>st. run_work (columns df) normal ?wk (tissues_placed c df) = Inr st"
    using wf_tissues_placed [of c df] work_has_node [of sort_values df c]
    by (intro run_work_total)
  with assms(2) show ?thesis
    by (simp add: build_graph_def add_all_genes_run_work all_columns_def)
qed

lemma quiet_run_returns:
  assumes "build_graph sort_values normal c df = Inr st"
  shows "returned (create_web_network (quiet_env df) sort_values normal c) =
           Some (G st, fixed_positions st)"
proof -
  have "has_node (G (tissues_placed c df)) c" by (simp add: has_node_tissues_placed)
  with run_work_wf [OF build_graph_InrD [OF assms] wf_tissues_placed work_has_node]
  have "wf_build st" "has_node (G st) c" by auto
  from nodes_data_total [OF this] obtain ns where "nodes_data c st = Inr ns" by blast
  with assms show ?thesis
    by (simp add: create_web_network_def try_body_def quiet_env_def)
qed

lemma take_sorted_highest:
  assumes "mset s = mset xs" "sorted_wrt R s"
  shows "mset (take k s) \<subseteq># mset xs \<and> length (take k s) = min (length xs) k \<and>
         (\<forall>a\<in>set (take k s). \<forall>b\<in>#(mset xs - mset (take k s)). R a b)"
proof -
  have split: "mset xs = mset (take k s) + mset (drop k s)"
    unfolding assms(1) [symmetric] by (simp flip: mset_append)
  have len: "length s = length xs"
    using assms(1) by (metis size_mset)
  have "sorted_wrt R (take k s @ drop k s)"
    using assms(2) by simp
  then have ord: "\<forall>a\<in>set (take k s). \<forall>b\<in>set (drop k s). R a b"
    by (simp only: sorted_wrt_append) blast
  have diff: "mset xs - mset (take k s) = mset (drop k s)"
    by (simp add: split)
  show ?thesis
    unfolding diff using ord by (simp add: split len)
qed

lemma kept_rows_highest:
  assumes "sorts_desc sort_values"
  shows "mset (tissue_rows sort_values fdf t) \<subseteq># mset (filter (\<lambda>r. tumor r = t) fdf) \<and>
         length (tissue_rows sort_values fdf t) = min (length (filter (\<lambda>r. tumor r = t) fdf)) 150 \<and>
         (\<forall>a\<in>set (tissue_rows sort_values fdf t).
            \<forall>b\<in>#(mset (filter (\<lambda>r. tumor r = t) fdf) - mset (tissue_rows sort_values fdf t)).
              pcc b \<le> pcc a)"
  unfolding tissue_rows_take
  using assms by (intro take_sorted_highest) (simp_all add: sorts_desc_def del: mset_filter)

lemma kept_rows_subset:
  assumes "sorts_desc sort_values"
  shows "set (tissue_rows sort_values fdf t) \<subseteq> set (filter (\<lambda>r. tumor r = t) fdf)"
  using kept_rows_highest [OF assms, of fdf t] set_mset_mono by fastforce

lemma kept_all_when_short:
  assumes "sorts_desc sort_values" "length (filter (\<lambda>r. tumor r = t) fdf) \<le> 150"
  shows "set (tissue_rows sort_values fdf t) = set (filter (\<lambda>r. tumor r = t) fdf)"
proof -
  let ?sel = "filter (\<lambda>r. tumor r = t) fdf"
  have "mset (sort_values ?sel) = mset ?sel" using assms(1) by (simp add: sorts_desc_def)
  then have "length (sort_values ?sel) = length ?sel" "set (sort_values ?sel) = set ?sel"
    by (metis size_mset, metis set_mset_mset)
  with assms(2) show ?thesis by (simp add: tissue_rows_take)
qed

lemma distinct_mset_subseteq:
  assumes "mset ys \<subseteq># mset xs" "distinct xs"
  shows "distinct ys"
proof -
  have "count (mset ys) a = (if a \<in> set ys then 1 else 0)" for a
  proof -
    have "count (mset ys) a \<le> count (mset xs) a"
      using assms(1) by (rule mset_subset_eq_count)
    moreover have "count (mset xs) a \<le> 1"
      using assms(2) by (simp add: distinct_count_atmost_1)
    ultimately have le1: "count (mset ys) a \<le> 1" by simp
    show ?thesis
    proof (cases "a \<in> set ys")
      case True
      then have "0 < count (mset ys) a" by simp
      with le1 have "count (mset ys) a = 1" by linarith
      with True show ?thesis by (simp only: if_True)
    next
      case False
      then show ?thesis by simp
    qed
  qed
  then show ?thesis by (simp only: distinct_count_atmost_1) simp
qed

lemma kept_distinct_names:
  assumes "sorts_desc sort_values" "distinct (map gene_symbol (filter (\<lambda>r. tumor r = t) fdf))"
  shows "distinct (map gene_symbol (tissue_rows sort_values fdf t))"
proof -
  let ?sel = "filter (\<lambda>r. tumor r = t) fdf"
  have "mset (tissue_rows sort_values fdf t) \<subseteq># mset ?sel"
    using kept_rows_highest [OF assms(1)] by blast
  then have "image_mset gene_symbol (mset (tissue_rows sort_values fdf t))
               \<subseteq># image_mset gene_symbol (mset ?sel)"
    by (rule image_mset_subseteq_mono)
  then have "mset (map gene_symbol (tissue_rows sort_values fdf t)) \<subseteq># mset (map gene_symbol ?sel)"
    by (simp only: mset_map)
  from distinct_mset_subseteq [OF this assms(2)] show ?thesis .
qed

subsection \<open>The table of 151 rows\<close>

lemma label_rows_map:
  "label_rows (map f [0..<n]) = map (\<lambda>i. case f i of (g, t, p) \<Rightarrow> Row i g t p) [0..<n]"
  by (simp add: label_rows_def enumerate_eq_zip zip_map2 zip_same_conv_map case_prod_beta)

lemma filtered_capped:
  "filtered_rows capped_table =
     map (\<lambda>i. Row i (replicate (max i 1) CHR ''g'') ''T'' (1 - real i / 1000)) [0..<151]"
proof -
  let ?R = "\<lambda>i. Row i (replicate (max i 1) CHR ''g'') ''T'' (1 - real i / 1000)"
  have rows: "label_rows (cells capped_table) = map ?R [0..<151]"
    by (simp add: capped_table_def label_rows_map capped_row_def)
  have "0.8 \<le> pcc r" if "r \<in> set (map ?R [0..<151])" for r
  proof -
    from that obtain i where "i < 151" "r = ?R i" by auto
    then show ?thesis by simp
  qed
  then have "filter (\<lambda>r. 0.8 \<le> pcc r) (map ?R [0..<151]) = map ?R [0..<151]"
    by (intro filter_True ballI)
  then show ?thesis by (simp only: filtered_rows_def rows)
qed

lemma sorted_map_upt:
  assumes "\<And>i j. i < j \<Longrightarrow> f i \<le> (f j :: real)"
  shows "sorted (map f [m..<n])"
proof -
  have "sorted_wrt (\<lambda>i j. f i \<le> f j) [m..<n]"
    by (rule sorted_wrt_mono_rel [OF _ sorted_wrt_upt]) (rule assms)
  then show ?thesis by (simp only: sorted_map)
qed

lemma kept_capped:
  "tissue_rows stable_sort_desc (filtered_rows capped_table) ''T'' =
     map (\<lambda>i. Row i (replicate (max i 1) CHR ''g'') ''T'' (1 - real i / 1000)) [0..<150]"
proof -
  let ?R = "\<lambda>i. Row i (replicate (max i 1) CHR ''g'') ''T'' (1 - real i / 1000)"
  have "tumor r = ''T''" if "r \<in> set (map ?R [0..<151])" for r
    using that by auto
  then have sel: "filter (\<lambda>r. tumor r = ''T'') (map ?R [0..<151]) = map ?R [0..<151]"
    by (intro filter_True ballI)
  have "sorted (map (\<lambda>i. - (1 - real i / 1000)) [0..<151])"
    by (rule sorted_map_upt) simp
  then have "sorted (map (\<lambda>r. - pcc r) (map ?R [0..<151]))"
    by (simp only: map_map comp_def row.sel)
  then have "sort_key (\<lambda>r. - pcc r) (map ?R [0..<151]) = map ?R [0..<151]"
    by (rule sort_key_id_if_sorted)
  then have sorted_id: "stable_sort_desc (map ?R [0..<151]) = map ?R [0..<151]"
    by (simp only: stable_sort_desc_def)
  have "take 150 (map ?R [0..<151]) = map ?R [0..<150]"
    by (simp only: take_map) simp
  then show ?thesis
    by (simp only: tissue_rows_take filtered_capped sel sorted_id)
qed

lemma replicate_names_image:
  "(\<lambda>i. replicate (max i 1) CHR ''g'') ` {0..<Suc (Suc n)} =
   (\<lambda>k. replicate k CHR ''g'') ` {1..<Suc (Suc n)}"
proof (intro set_eqI iffI)
  fix x assume "x \<in> (\<lambda>i. replicate (max i 1) CHR ''g'') ` {0..<Suc (Suc n)}"
  then obtain i where i: "i < Suc (Suc n)" "x = replicate (max i 1) CHR ''g''" by auto
  then have "max i 1 \<in> {1..<Suc (Suc n)}" by auto
  with i(2) show "x \<in> (\<lambda>k. replicate k CHR ''g'') ` {1..<Suc (Suc n)}" by (rule image_eqI)
next
  fix x assume "x \<in> (\<lambda>k. replicate k CHR ''g'') ` {1..<Suc (Suc n)}"
  then obtain k where k: "1 \<le> k" "k < Suc (Suc n)" "x = replicate k CHR ''g''" by auto
  then have "x = replicate (max k 1) CHR ''g''" "k \<in> {0..<Suc (Suc n)}" by (simp_all add: max_def)
  then show "x \<in> (\<lambda>i. replicate (max i 1) CHR ''g'') ` {0..<Suc (Suc n)}" by (rule image_eqI)
qed

lemma replicate_names_card:
  "card ((\<lambda>i. replicate (max i 1) CHR ''g'') ` {0..<Suc (Suc n)}) = Suc n"
proof -
  have "inj_on (\<lambda>k. replicate k CHR ''g'') {1..<Suc (Suc n)}"
  proof (rule inj_onI)
    fix a b :: nat assume "replicate a CHR ''g'' = replicate b CHR ''g''"
    then have "length (replicate a CHR ''g'') = length (replicate b CHR ''g'')" by (rule arg_cong)
    then show "a = b" by simp
  qed
  then have "card ((\<lambda>k. replicate k CHR ''g'') ` {1..<Suc (Suc n)}) = card {1..<Suc (Suc n)}"
    by (rule card_image)
  then show ?thesis by (simp only: replicate_names_image) simp
qed

lemma replicate_name_not_reserved:
  "replicate k CHR ''g'' \<noteq> ''T''" "replicate k CHR ''g'' \<noteq> ''GCH1''"
proof -
  show "replicate k CHR ''g'' \<noteq> ''T''"
  proof
    assume a: "replicate k CHR ''g'' = ''T''"
    have "CHR ''T'' \<in> set ''T''" by simp
    then have "CHR ''T'' \<in> set (replicate k CHR ''g'')" by (simp only: a)
    then show False by simp
  qed
  show "replicate k CHR ''g'' \<noteq> ''GCH1''"
  proof
    assume a: "replicate k CHR ''g'' = ''GCH1''"
    have "CHR ''G'' \<in> set ''GCH1''" by simp
    then have "CHR ''G'' \<in> set (replicate k CHR ''g'')" by (simp only: a)
    then show False by simp
  qed
qed

lemma names_of_map:
  "gene_symbol ` set (map (\<lambda>i. Row i (replicate (max i 1) CHR ''g'') ''T'' (1 - real i / 1000)) [0..<n])
     = (\<lambda>i. replicate (max i 1) CHR ''g'') ` {0..<n}"
  by (simp add: image_image)

lemma labels_capped: "tumor ` set (filtered_rows capped_table) = {''T''}"
proof -
  have "map tumor (filtered_rows capped_table) = replicate 151 ''T''"
    by (simp add: filtered_capped comp_def map_replicate_const)
  then have "set (map tumor (filtered_rows capped_table)) = {''T''}"
    by simp
  then show ?thesis by (simp only: set_map)
qed

subsection \<open>Positions that the loop over the genes leaves alone\<close>

text \<open>
  The loop of lines 54 to 62 gives the tissue number \<open>i\<close>, counted from 0 in the
  order of first appearance, the angle \<open>i * \<pi> * (3 - \<surd>5)\<close> on the circle of radius 400.
\<close>

lemma tissue_placed_on_circle:
  assumes "i < length (unique (map tumor (filtered_rows df)))"
  shows "fixed_positions (tissues_placed central_node df) (unique (map tumor (filtered_rows df)) ! i) =
           Some (400 * cos (real i * (pi * (3 - sqrt 5))), 400 * sin (real i * (pi * (3 - sqrt 5))))"
  using pos_add_tissues [OF distinct_unique assms, of central_node _ 0]
  by (simp add: tissues_placed_def radius_def golden_angle_def)

lemma run_work_positions:
  "run_work cols normal xs st = Inr st' \<Longrightarrow> \<forall>x\<in>set xs. gene_symbol (snd (snd x)) \<noteq> m \<Longrightarrow>
     fixed_positions st' m = fixed_positions st m"
proof (induction xs arbitrary: st)
  case Nil
  then show ?case by simp
next
  case (Cons x xs)
  obtain t n r where x: "x = (t, n, r)" by (cases x)
  from Cons.prems(1) obtain c where
    run: "run_work cols normal xs (gene_step normal t n c r st) = Inr st'"
    by (auto simp: x split: if_splits option.splits)
  from Cons.prems(2) have "m \<noteq> gene_symbol r" and rest: "\<forall>y\<in>set xs. gene_symbol (snd (snd y)) \<noteq> m"
    by (auto simp: x)
  with Cons.IH [OF run rest] show ?case
    by (simp add: pos_gene_step_other)
qed

text \<open>
  The position that the loop of lines 54 to 62 gives a tissue is still its position in
  the dictionary that the function returns, unless a row that reaches line 107 names a
  gene like the tissue.  The same holds for the \<open>(0, 0)\<close> of the central node, unless
  a tissue or such a row bears its name.
\<close>

lemma tissue_position_returned:
  assumes "build_graph sort_values normal c df = Inr st"
    and "i < length (unique (map tumor (filtered_rows df)))"
    and "\<forall>x\<in>set (work sort_values (filtered_rows df) (unique (map tumor (filtered_rows df)))).
           gene_symbol (snd (snd x)) \<noteq> unique (map tumor (filtered_rows df)) ! i"
  shows "fixed_positions st (unique (map tumor (filtered_rows df)) ! i) =
           Some (400 * cos (real i * (pi * (3 - sqrt 5))), 400 * sin (real i * (pi * (3 - sqrt 5))))"
proof -
  have "fixed_positions st (unique (map tumor (filtered_rows df)) ! i) =
          fixed_positions (tissues_placed c df) (unique (map tumor (filtered_rows df)) ! i)"
    by (rule run_work_positions [OF build_graph_InrD [OF assms(1)] assms(3)])
  also have "\<dots> = Some (400 * cos (real i * (pi * (3 - sqrt 5))), 400 * sin (real i * (pi * (3 - sqrt 5))))"
    using pos_add_tissues [OF distinct_unique assms(2), of c _ 0]
    by (simp add: tissues_placed_def radius_def golden_angle_def)
  finally show ?thesis .
qed

lemma central_position_returned:
  assumes "build_graph sort_values normal c df = Inr st"
    and "c \<notin> tumor ` set (filtered_rows df)"
    and "\<forall>x\<in>set (work sort_values (filtered_rows df) (unique (map tumor (filtered_rows df)))).
           gene_symbol (snd (snd x)) \<noteq> c"
  shows "fixed_positions st c = Some (0, 0)"
proof -
  have "fixed_positions st c = fixed_positions (tissues_placed c df) c"
    by (rule run_work_positions [OF build_graph_InrD [OF assms(1)] assms(3)])
  also have "\<dots> = fixed_positions (initial_build c) c"
    unfolding tissues_placed_def using assms(2) by (intro pos_add_tissues_other) simp
  also have "\<dots> = Some (0, 0)" by (simp add: initial_build_def)
  finally show ?thesis .
qed

subsection \<open>Errors raised after the file is opened\<close>

lemma run_work_errors:
  "run_work cols normal xs st = Inl err \<Longrightarrow> err = ValueError \<or> (\<exists>k. err = KeyError k)"
proof (induction xs arbitrary: st)
  case Nil
  then show ?case by simp
next
  case (Cons x xs)
  obtain t n r where x: "x = (t, n, r)" by (cases x)
  show ?case
  proof (cases "''Gene Symbol'' \<notin> set cols \<or> 0.3 + 0.6 * (1 - pcc r) < 0")
    case True
    with Cons.prems show ?thesis by (auto simp: x split: if_splits)
  next
    case False
    show ?thesis
    proof (cases "fixed_positions st t")
      case None
      with False Cons.prems have "err = KeyError t" by (simp add: x)
      then show ?thesis by blast
    next
      case (Some c)
      with False Cons.prems have "run_work cols normal xs (gene_step normal t n c r st) = Inl err"
        by (simp add: x)
      then show ?thesis by (rule Cons.IH)
    qed
  qed
qed

lemma build_graph_errors:
  assumes "build_graph sort_values normal c df = Inl err"
  shows "err = ValueError \<or> (\<exists>k. err = KeyError k)"
proof (cases "''PCC'' \<in> set (columns df) \<and> ''Tumor'' \<in> set (columns df)")
  case False
  with assms show ?thesis by (auto simp: build_graph_def split: if_splits)
next
  case True
  with assms have "run_work (columns df) normal
      (work sort_values (filtered_rows df) (unique (map tumor (filtered_rows df))))
      (tissues_placed c df) = Inl err"
    by (simp add: build_graph_def add_all_genes_run_work)
  then show ?thesis by (rule run_work_errors)
qed

lemma node_entries_errors:
  "node_entries c pos al = Inl err \<Longrightarrow> \<exists>k. err = KeyError k"
proof (induction al)
  case Nil
  then show ?case by simp
next
  case (Cons p al)
  obtain n a where p: "p = (n, a)" by (cases p)
  show ?case
  proof (cases "node_entries c pos al")
    case (Inl err')
    show ?thesis
    proof (cases "pos n")
      case None
      with Cons.prems Inl Cons.IH show ?thesis
        by (auto simp: p split: if_splits)
    next
      case (Some xy)
      with Cons.prems Inl Cons.IH show ?thesis
        by (cases xy) (auto simp: p split: if_splits)
    qed
  next
    case (Inr es)
    show ?thesis
    proof (cases "pos n")
      case None
      with Cons.prems Inr show ?thesis
        by (auto simp: p split: if_splits)
    next
      case (Some xy)
      with Cons.prems Inr show ?thesis
        by (cases xy) (auto simp: p split: if_splits)
    qed
  qed
qed

lemma nodes_data_errors:
  assumes "nodes_data c st = Inl err"
  shows "\<exists>k. err = KeyError k"
proof (cases "fixed_positions st c")
  case None
  with assms show ?thesis by (auto simp: nodes_data_def)
next
  case (Some xy)
  with assms have "node_entries c (fixed_positions st) (g_node (G st)) = Inl err"
    by (cases xy) (auto simp: nodes_data_def split: sum.splits)
  then show ?thesis by (rule node_entries_errors)
qed

text \<open>
  When the table has been read, an error of \<open>f.write\<close> leaves the file that \<open>open\<close> has
  created, and an error of \<open>webbrowser.open\<close> leaves the whole document.
\<close>

lemma file_left_by_late_errors:
  assumes "csv e = Inr df"
  shows "(console (create_web_network e sort_values normal c) =
            [PrintError WriteError, PrintTraceback WriteError] \<longrightarrow>
          out_file (create_web_network e sort_values normal c) = Truncated) \<and>
         (console (create_web_network e sort_values normal c) =
            [PrintError BrowserError, PrintTraceback BrowserError] \<longrightarrow>
          (\<exists>ns ls. out_file (create_web_network e sort_values normal c) = Written ns ls))"
proof (cases "build_graph sort_values normal c df")
  case (Inl err)
  from build_graph_errors [OF Inl] have "err \<noteq> WriteError" "err \<noteq> BrowserError" by auto
  with Inl assms show ?thesis
    by (simp add: create_web_network_def try_body_def)
next
  case (Inr st)
  show ?thesis
  proof (cases "nodes_data c st")
    case (Inl err)
    from nodes_data_errors [OF Inl] have "err \<noteq> WriteError" "err \<noteq> BrowserError" by auto
    with Inl assms Inr show ?thesis
      by (simp add: create_web_network_def try_body_def)
  next
    case ns: (Inr ns)
    with assms Inr show ?thesis
      by (simp add: create_web_network_def try_body_def)
  qed
qed

section \<open>The claims\<close>

text \<open>
  C5.  In the graph that the function returns, the number of nodes whose
  \<open>node_type\<close> is \<open>tissue\<close> is the number of distinct \<open>Tumor\<close> labels among the rows
  with \<open>PCC \<ge> 0.8\<close>.
\<close>

theorem category_node_count:
  assumes "returned (create_web_network e sort_values normal central_node) = Some (g, pos)"
    and "csv e = Inr df"
  shows "length (filter (\<lambda>(n, a). node_type a = Some Tissue) (g_node g)) =
           card (tumor ` set (filtered_rows df))"
proof -
  from returned_D [OF assms(1)] assms(2) obtain st where
    st: "build_graph sort_values normal central_node df = Inr st" and g: "g = G st"
    by auto
  have d: "distinct (map fst (g_node g))"
    using build_graph_wf [OF st] by (simp add: g wf_build_def wf_graph_def)
  have "{n. \<exists>a. map_of (g_node g) n = Some a \<and> node_type a = Some Tissue} =
          tumor ` set (filtered_rows df)"
    unfolding g build_graph_nodes [OF st]
    by (auto simp: tissue_attrs_def central_attrs_def gene_attrs_def split: option.splits if_splits)
  with length_filter_alist [OF d, of "\<lambda>a. node_type a = Some Tissue"] show ?thesis
    by simp
qed

theorem category_node_count_witness:
  "\<exists>g pos. returned (create_web_network (quiet_env repeated_gene_table) stable_sort_desc
                      no_noise ''GCH1'') = Some (g, pos) \<and>
           map fst (g_node g) = [''GCH1'', ''A'', ''B'', ''G''] \<and>
           length (filter (\<lambda>(n, a). node_type a = Some Tissue) (g_node g)) = 2 \<and>
           card (tumor ` set (filtered_rows repeated_gene_table)) = 2"
proof -
  obtain g pos where r:
    "returned (create_web_network (quiet_env repeated_gene_table) stable_sort_desc
       no_noise ''GCH1'') = Some (g, pos)"
    and k: "map fst (g_node g) = [''GCH1'', ''A'', ''B'', ''G'']"
    and n: "length (filter (\<lambda>(n, a). node_type a = Some Tissue) (g_node g)) = 2"
    by (simp add: run_repeated tissue_attrs_def central_attrs_def gene_attrs_def)
  have c: "csv (quiet_env repeated_gene_table) = Inr repeated_gene_table"
    by (simp add: quiet_env_def)
  from category_node_count [OF r c] n
  have "card (tumor ` set (filtered_rows repeated_gene_table)) = 2" by simp
  with r k n show ?thesis by (intro exI [of _ g] exI [of _ pos] conjI)
qed

text \<open>
  C10.  The \<open>gene_count\<close> of every tissue entry of \<open>nodes_data\<close> is the number of rows
  with \<open>PCC \<ge> 0.8\<close> that bear the label: all of them, whether or not they are among
  the 150 that the loop keeps, and whether or not they name the same gene.
\<close>

theorem gene_count_counts_rows:
  assumes "out_file (create_web_network e sort_values normal central_node) = Written ns ls"
    and "csv e = Inr df"
  shows "\<forall>n\<in>set ns. j_node_type n = Tissue \<longrightarrow>
           j_gene_count n = Some (length (filter (\<lambda>r. tumor r = j_id n) (filtered_rows df)))"
proof (intro ballI impI)
  fix n assume "n \<in> set ns" "j_node_type n = Tissue"
  from written_tissue [OF assms this] show
    "j_gene_count n = Some (length (filter (\<lambda>r. tumor r = j_id n) (filtered_rows df)))"
    by (simp add: count_list_map)
qed

text \<open>
  On \<open>repeated_gene_table\<close> the tissue \<open>B\<close> has two rows, both of the gene \<open>G\<close>: its
  \<open>gene_count\<close> is 2 and one gene node is attached to it.
\<close>

theorem gene_count_counts_rows_witness:
  "\<exists>g pos ns ls n.
      returned (create_web_network (quiet_env repeated_gene_table) stable_sort_desc
                  no_noise ''GCH1'') = Some (g, pos) \<and>
      out_file (create_web_network (quiet_env repeated_gene_table) stable_sort_desc
                  no_noise ''GCH1'') = Written ns ls \<and>
      n \<in> set ns \<and> j_id n = ''B'' \<and> j_node_type n = Tissue \<and> j_gene_count n = Some 2 \<and>
      length (filter (\<lambda>r. tumor r = ''B'') (filtered_rows repeated_gene_table)) = 2 \<and>
      gene_neighbours g ''B'' = [''G'']"
proof -
  let ?run = "create_web_network (quiet_env repeated_gene_table) stable_sort_desc no_noise ''GCH1''"
  let ?n = "NodeJson ''B'' Tissue (Some 2) None None (400 * cos golden_angle) (400 * sin golden_angle)"
  obtain g pos ns ls where r: "returned ?run = Some (g, pos)" and w: "out_file ?run = Written ns ls"
    and n: "?n \<in> set ns" and nb: "gene_neighbours g ''B'' = [''G'']"
    by (simp add: run_repeated gene_neighbours_def neighbours_def kind_of_def
          central_attrs_def gene_attrs_def)
  from gene_count_counts_rows [OF w csv_quiet_env] n
  have "j_node_type ?n = Tissue \<longrightarrow>
          j_gene_count ?n =
            Some (length (filter (\<lambda>r. tumor r = j_id ?n) (filtered_rows repeated_gene_table)))"
    by (rule bspec)
  then have "length (filter (\<lambda>r. tumor r = ''B'') (filtered_rows repeated_gene_table)) = 2"
    by simp
  with r w n nb show ?thesis
    by (intro exI [of _ g] exI [of _ pos] exI [of _ ns] exI [of _ ls] exI [of _ ?n]) simp
qed

text \<open>
  C4.  Whatever the output file holds comes from a row with \<open>PCC \<ge> 0.8\<close>: a gene
  entry has the name, the score and the tissue of such a row, a tissue entry has its
  label, and a link joins the central node to such a label with the value 5 or joins
  the gene and the tissue of such a row with three times its score.  Hence a row with
  \<open>PCC < 0.8\<close> gives its score to no node and its weight to no link.
\<close>

theorem only_filtered_rows_appear:
  assumes "sorts_desc sort_values"
    and "out_file (create_web_network e sort_values normal central_node) = Written ns ls"
    and "csv e = Inr df"
  shows "(\<forall>n\<in>set ns. j_node_type n = Gene \<longrightarrow>
            (\<exists>r\<in>set (label_rows (cells df)). 0.8 \<le> pcc r \<and> j_id n = gene_symbol r \<and>
               j_pcc n = Some (pcc r) \<and> j_tissue n = Some (tumor r))) \<and>
         (\<forall>n\<in>set ns. j_node_type n = Tissue \<longrightarrow>
            (\<exists>r\<in>set (label_rows (cells df)). 0.8 \<le> pcc r \<and> j_id n = tumor r)) \<and>
         (\<forall>l\<in>set ls. \<exists>r\<in>set (label_rows (cells df)). 0.8 \<le> pcc r \<and>
            (((l_source l = central_node \<and> l_target l = tumor r) \<or>
              (l_source l = tumor r \<and> l_target l = central_node)) \<and> l_value l = 5 \<or>
             ((l_source l = gene_symbol r \<and> l_target l = tumor r) \<or>
              (l_source l = tumor r \<and> l_target l = gene_symbol r)) \<and> l_value l = pcc r * 3)) \<and>
         (\<forall>r\<in>set (label_rows (cells df)). pcc r < 0.8 \<longrightarrow>
            (\<forall>n\<in>set ns. j_pcc n \<noteq> Some (pcc r)) \<and> (\<forall>l\<in>set ls. l_value l \<noteq> pcc r * 3))"
proof -
  let ?rows = "label_rows (cells df)"
  let ?wk = "work sort_values (filtered_rows df) (unique (map tumor (filtered_rows df)))"
  have wk: "r \<in> set ?rows \<and> 0.8 \<le> pcc r \<and> tumor r = t" if "(t, k, r) \<in> set ?wk" for t k r
    using work_row [OF assms(1) that] filtered_rows_D by blast
  have gene: "\<exists>r\<in>set ?rows. 0.8 \<le> pcc r \<and> j_id n = gene_symbol r \<and>
                 j_pcc n = Some (pcc r) \<and> j_tissue n = Some (tumor r)"
    if "n \<in> set ns" "j_node_type n = Gene" for n
  proof -
    from written_gene [OF assms(2,3) that] obtain t k r where
      f: "find (\<lambda>(t, k, r). gene_symbol r = j_id n) ?wk = Some (t, k, r)" and
      at: "j_pcc n = Some (pcc r)" "j_tissue n = Some t"
      by blast
    from find_SomeD [OF f] have "(t, k, r) \<in> set ?wk" "gene_symbol r = j_id n" by auto
    with wk [of t k r] at show ?thesis by auto
  qed
  have tissue: "\<exists>r\<in>set ?rows. 0.8 \<le> pcc r \<and> j_id n = tumor r"
    if "n \<in> set ns" "j_node_type n = Tissue" for n
    using written_tissue [OF assms(2,3) that] filtered_rows_D by auto
  have link: "\<exists>r\<in>set ?rows. 0.8 \<le> pcc r \<and>
      (((l_source l = central_node \<and> l_target l = tumor r) \<or>
        (l_source l = tumor r \<and> l_target l = central_node)) \<and> l_value l = 5 \<or>
       ((l_source l = gene_symbol r \<and> l_target l = tumor r) \<or>
        (l_source l = tumor r \<and> l_target l = gene_symbol r)) \<and> l_value l = pcc r * 3)"
    if "l \<in> set ls" for l
  proof -
    let ?P = "\<lambda>(t, k, r). (l_source l = gene_symbol r \<and> l_target l = t) \<or>
                           (l_source l = t \<and> l_target l = gene_symbol r)"
    from written_link [OF assms(2,3) that] obtain st where
      st: "build_graph sort_values normal central_node df = Inr st" and
      w: "edge_weight (G st) (l_source l) (l_target l) = Some (l_value l)"
      by blast
    show ?thesis
    proof (cases "find ?P (rev ?wk)")
      case None
      with w have "(l_source l = central_node \<and> l_target l \<in> tumor ` set (filtered_rows df)) \<or>
                   (l_source l \<in> tumor ` set (filtered_rows df) \<and> l_target l = central_node)"
        and "l_value l = 5"
        unfolding build_graph_edges [OF st] by (auto split: if_splits)
      then show ?thesis using filtered_rows_D by auto
    next
      case (Some x)
      obtain t k r where x: "x = (t, k, r)" by (cases x)
      from Some w have v: "l_value l = pcc r * 3"
        unfolding build_graph_edges [OF st] by (simp add: x)
      from find_SomeD [OF Some] have "(t, k, r) \<in> set ?wk" "?P (t, k, r)" by (auto simp: x)
      with wk [of t k r] v show ?thesis by auto
    qed
  qed
  have low: "(\<forall>n\<in>set ns. j_pcc n \<noteq> Some (pcc r)) \<and> (\<forall>l\<in>set ls. l_value l \<noteq> pcc r * 3)"
    if "r \<in> set ?rows" "pcc r < 0.8" for r
  proof (intro conjI ballI)
    fix n assume n: "n \<in> set ns"
    show "j_pcc n \<noteq> Some (pcc r)"
    proof (cases "j_node_type n")
      case Gene
      from gene [OF n Gene] that(2) show ?thesis by auto
    next
      case Tissue
      from written_node [OF assms(2,3) n] Tissue obtain st a where
        st: "build_graph sort_values normal central_node df = Inr st" and
        a: "map_of (g_node (G st)) (j_id n) = Some a" "node_type a = Some Tissue"
        by auto
      from written_D [OF assms(2)] assms(3) st have nd: "nodes_data central_node st = Inr ns"
        by auto
      from nodes_data_InrD [OF nd] obtain x y es where
        es: "node_entries central_node (fixed_positions st) (g_node (G st)) = Inr es"
          "ns = NodeJson central_node Central None None None x y # es" by blast
      with n Tissue have "n \<in> set es" by auto
      from node_entries_tissue_pcc [OF es(1) this Tissue] have "j_pcc n = None" .
      then show ?thesis by simp
    next
      case Central
      from written_D [OF assms(2)] obtain st where nd: "nodes_data central_node st = Inr ns"
        by auto
      from nodes_data_InrD [OF nd] obtain x y es where
        es: "node_entries central_node (fixed_positions st) (g_node (G st)) = Inr es"
          "ns = NodeJson central_node Central None None None x y # es" by blast
      from node_entries_sound [OF es(1)] Central n es(2) have "n = NodeJson central_node Central None None None x y"
        by auto
      then show ?thesis by simp
    qed
  next
    fix l assume "l \<in> set ls"
    from link [OF this] that(2) show "l_value l \<noteq> pcc r * 3" by auto
  qed
  from gene tissue link low show ?thesis by blast
qed

text \<open>
  On \<open>repeated_gene_table\<close> the row \<open>H, B, 0.5\<close> is below the threshold: no entry has
  its score and no link has its weight 1.5.
\<close>

theorem only_filtered_rows_appear_witness:
  "\<exists>ns ls.
      out_file (create_web_network (quiet_env repeated_gene_table) stable_sort_desc
                  no_noise ''GCH1'') = Written ns ls \<and>
      map j_id ns = [''GCH1'', ''A'', ''B'', ''G''] \<and>
      Row 3 ''H'' ''B'' (1 / 2) \<in> set (label_rows (cells repeated_gene_table)) \<and>
      Some (1 / 2) \<notin> set (map j_pcc ns) \<and> 3 / 2 \<notin> set (map l_value ls)"
proof -
  let ?run = "create_web_network (quiet_env repeated_gene_table) stable_sort_desc no_noise ''GCH1''"
  let ?r = "Row 3 ''H'' ''B'' (1 / 2)"
  obtain ns ls where w: "out_file ?run = Written ns ls"
    and ids: "map j_id ns = [''GCH1'', ''A'', ''B'', ''G'']"
    by (simp add: run_repeated)
  have r: "?r \<in> set (label_rows (cells repeated_gene_table))"
    by (simp add: repeated_gene_table_def label_rows_def enumerate_eq_zip upt_rec)
  from only_filtered_rows_appear [OF sorts_desc_stable w csv_quiet_env]
  have "\<forall>r\<in>set (label_rows (cells repeated_gene_table)). pcc r < 0.8 \<longrightarrow>
          (\<forall>n\<in>set ns. j_pcc n \<noteq> Some (pcc r)) \<and> (\<forall>l\<in>set ls. l_value l \<noteq> pcc r * 3)"
    by blast
  from this r have "pcc ?r < 0.8 \<longrightarrow>
      (\<forall>n\<in>set ns. j_pcc n \<noteq> Some (pcc ?r)) \<and> (\<forall>l\<in>set ls. l_value l \<noteq> pcc ?r * 3)"
    by (rule bspec)
  then have "Some (1 / 2) \<notin> set (map j_pcc ns)" and "3 / 2 \<notin> set (map l_value ls)"
    by auto
  with w ids r show ?thesis by (intro exI [of _ ns] exI [of _ ls] conjI)
qed

text \<open>
  C9.  A node is its name, so no name occurs twice among the nodes; and a gene node
  of the returned graph has the score and the tissue of the first row with its name
  that the loops reach.  A later row with a name that the graph already has leaves
  every node as it is.
\<close>

theorem first_insertion_is_kept:
  assumes "returned (create_web_network e sort_values normal central_node) = Some (g, pos)"
    and "csv e = Inr df"
    and "kind_of g m = Some Gene"
  shows "distinct (map fst (g_node g)) \<and>
         (\<exists>t n r. find (\<lambda>(t, n, r). gene_symbol r = m)
                     (work sort_values (filtered_rows df) (unique (map tumor (filtered_rows df))))
                   = Some (t, n, r) \<and>
                  map_of (g_node g) m = Some (gene_attrs (pcc r) t)) \<and>
         (\<forall>st t n c r. has_node (G st) (gene_symbol r) \<and> has_node (G st) t \<longrightarrow>
            g_node (G (gene_step normal t n c r st)) = g_node (G st))"
proof -
  from returned_D [OF assms(1)] assms(2) obtain st where
    st: "build_graph sort_values normal central_node df = Inr st" and g: "g = G st"
    by auto
  have d: "distinct (map fst (g_node g))"
    using build_graph_wf [OF st] by (simp add: g wf_build_def wf_graph_def)
  from assms(3) obtain a where a: "map_of (g_node (G st)) m = Some a" "node_type a = Some Gene"
    by (auto simp: kind_of_def g split: option.splits)
  then have first: "\<exists>t n r. find (\<lambda>(t, n, r). gene_symbol r = m)
                     (work sort_values (filtered_rows df) (unique (map tumor (filtered_rows df))))
                   = Some (t, n, r) \<and>
                  map_of (g_node g) m = Some (gene_attrs (pcc r) t)"
    unfolding g build_graph_nodes [OF st]
    by (auto simp: central_attrs_def tissue_attrs_def split: if_splits option.splits)
  have later: "g_node (G (gene_step normal t n c r st')) = g_node (G st')"
    if "has_node (G st') (gene_symbol r)" "has_node (G st') t" for st' t n c r
    using that by (simp add: gene_graph_def)
  from d first later show ?thesis by blast
qed

text \<open>
  On \<open>repeated_gene_table\<close> the gene \<open>G\<close> is met first in the tissue \<open>A\<close> with the
  score 0.9, then twice in \<open>B\<close> with higher and lower scores: the node keeps 0.9 and \<open>A\<close>.
\<close>

theorem first_insertion_is_kept_witness:
  "\<exists>g pos.
      returned (create_web_network (quiet_env repeated_gene_table) stable_sort_desc
                  no_noise ''GCH1'') = Some (g, pos) \<and>
      kind_of g ''G'' = Some Gene \<and>
      map (\<lambda>(t, n, r). (t, gene_symbol r, pcc r))
        (work stable_sort_desc (filtered_rows repeated_gene_table)
           (unique (map tumor (filtered_rows repeated_gene_table)))) =
        [(''A'', ''G'', 9 / 10), (''B'', ''G'', 19 / 20), (''B'', ''G'', 17 / 20)] \<and>
      map_of (g_node g) ''G'' = Some (gene_attrs (9 / 10) ''A'')"
proof -
  let ?run = "create_web_network (quiet_env repeated_gene_table) stable_sort_desc no_noise ''GCH1''"
  obtain g pos where r: "returned ?run = Some (g, pos)" and k: "kind_of g ''G'' = Some Gene"
    by (simp add: run_repeated kind_of_def gene_attrs_def)
  from first_insertion_is_kept [OF r csv_quiet_env k]
  have "map_of (g_node g) ''G'' = Some (gene_attrs (9 / 10) ''A'')"
    by (auto simp: work_repeated)
  with r k show ?thesis
    by (intro exI [of _ g] exI [of _ pos]) (simp add: work_repeated)
qed

text \<open>
  C7.  The table \<open>tissue_named_gene_table\<close> has the one row \<open>Liver, Liver, 0.875\<close>: a
  gene that bears the name of its tissue.  \<open>Liver\<close> is the tissue number 0, which the
  loop of lines 54 to 62 places at the angle 0 on the circle, at \<open>(400, 0)\<close>.  Line 107
  then stores the position of the gene under the same key, so in the dictionary that
  the function returns and in the tissue entry of \<open>nodes_data\<close> the tissue lies in its
  own cloud: whatever the two draws are, and at \<open>(468.75, 0)\<close> when both are 0.
\<close>

theorem tissue_moved_by_gene_of_its_name:
  "unique (map tumor (filtered_rows tissue_named_gene_table)) = [''Liver''] \<and>
   (radius * cos (real 0 * golden_angle), radius * sin (real 0 * golden_angle)) = (400, 0) \<and>
   fixed_positions (tissues_placed ''GCH1'' tissue_named_gene_table) ''Liver'' = Some (400, 0) \<and>
   (\<exists>g pos. returned (create_web_network (quiet_env tissue_named_gene_table) stable_sort_desc
                        normal ''GCH1'') = Some (g, pos) \<and>
            pos ''Liver'' =
              Some (400 + (275 / 4 + normal 1 (3 / 8) * 50) * cos (normal 0 (3 / 8) / 2),
                    (275 / 4 + normal 1 (3 / 8) * 50) * sin (normal 0 (3 / 8) / 2))) \<and>
   (\<exists>ls. out_file (create_web_network (quiet_env tissue_named_gene_table) stable_sort_desc
                     normal ''GCH1'') =
      Written
        [NodeJson ''GCH1'' Central None None None 0 0,
         NodeJson ''Liver'' Tissue (Some 1) None None
           (400 + (275 / 4 + normal 1 (3 / 8) * 50) * cos (normal 0 (3 / 8) / 2))
           ((275 / 4 + normal 1 (3 / 8) * 50) * sin (normal 0 (3 / 8) / 2))] ls) \<and>
   (\<exists>g pos. returned (create_web_network (quiet_env tissue_named_gene_table) stable_sort_desc
                        no_noise ''GCH1'') = Some (g, pos) \<and>
            pos ''Liver'' = Some (1875 / 4, 0)) \<and>
   (\<exists>ls. out_file (create_web_network (quiet_env tissue_named_gene_table) stable_sort_desc
                     no_noise ''GCH1'') =
      Written
        [NodeJson ''GCH1'' Central None None None 0 0,
         NodeJson ''Liver'' Tissue (Some 1) None None (1875 / 4) 0] ls)"
proof -
  have u: "unique (map tumor (filtered_rows tissue_named_gene_table)) = [''Liver'']"
    by (simp add: filtered_rows_def tissue_named_gene_table_def label_rows_def enumerate_eq_zip)
  have p: "fixed_positions (tissues_placed ''GCH1'' tissue_named_gene_table) ''Liver'' = Some (400, 0)"
    by (simp add: tissues_placed_def u radius_def)
  show ?thesis
    by (simp add: u p run_tissue_named_gene radius_def) (simp add: no_noise_def)
qed

text \<open>
  C2.  The table \<open>self_row_table\<close> has the one row \<open>GCH1, Liver, 1.0\<close> and the central
  node is \<open>GCH1\<close>.  Line 107 stores the position of the gene under the key \<open>GCH1\<close>, over
  the \<open>(0, 0)\<close> of line 48, so the central entry of \<open>nodes_data\<close> lies in the cloud
  around \<open>Liver\<close>: whatever the two draws are, and at \<open>(450, 0)\<close> when both are 0.
\<close>

theorem central_node_moved_by_own_row:
  "(\<exists>ls. out_file (create_web_network (quiet_env self_row_table) stable_sort_desc normal ''GCH1'') =
      Written
        [NodeJson ''GCH1'' Central None None None
           (400 + (50 + normal 1 (3 / 10) * 50) * cos (normal 0 (3 / 10) / 2))
           ((50 + normal 1 (3 / 10) * 50) * sin (normal 0 (3 / 10) / 2)),
         NodeJson ''Liver'' Tissue (Some 1) None None 400 0] ls) \<and>
   (\<exists>ls. out_file (create_web_network (quiet_env self_row_table) stable_sort_desc no_noise ''GCH1'') =
      Written
        [NodeJson ''GCH1'' Central None None None 450 0,
         NodeJson ''Liver'' Tissue (Some 1) None None 400 0] ls)"
  by (simp add: run_self_row) (simp add: no_noise_def)

text \<open>
  C6.  On the same table line 86 adds the edge \<open>GCH1\<close> -- \<open>Liver\<close> again, with the weight
  \<open>1.0 * 3\<close>: the only link of the output joins the central node and the tissue, and
  its value is 3.
\<close>

theorem central_edge_weight_overwritten:
  "\<exists>ns. out_file (create_web_network (quiet_env self_row_table) stable_sort_desc normal ''GCH1'') =
      Written ns [LinkJson ''GCH1'' ''Liver'' 3]"
  by (simp add: run_self_row)

text \<open>
  C3.  In \<open>two_gene_table\<close> the gene \<open>G2\<close> is the second row of the file and has the
  highest score, so it is first in the sorted list of the tissue \<open>T\<close>, a list of length
  2.  The source divides the index label 1 of the row by 2 and gets the angle \<open>\<pi>\<close>,
  where the specification has the angle 0 for the index 0: the two positions are
  opposite each other across the tissue, for every value of the two draws.  Without
  noise they are \<open>(342.5, 0)\<close> and \<open>(457.5, 0)\<close>.
\<close>

theorem item_angle_uses_row_label:
  "tissue_rows stable_sort_desc (filtered_rows two_gene_table) ''T'' =
     [Row 1 ''G2'' ''T'' (19 / 20), Row 0 ''G1'' ''T'' (9 / 10)] \<and>
   (\<exists>g pos. returned (create_web_network (quiet_env two_gene_table) stable_sort_desc normal ''GCH1'')
               = Some (g, pos) \<and>
            pos ''T'' = Some (400, 0) \<and>
            pos ''G2'' =
              Some (400 - (115 / 2 + normal 1 (33 / 100) * 50) * cos (normal 0 (33 / 100) / 2),
                    - ((115 / 2 + normal 1 (33 / 100) * 50) * sin (normal 0 (33 / 100) / 2)))) \<and>
   spec_item_position (400, 0) 0 2 (19 / 20) (normal 0 (33 / 100)) (normal 1 (33 / 100)) =
     (400 + (115 / 2 + normal 1 (33 / 100) * 50) * cos (normal 0 (33 / 100) / 2),
      (115 / 2 + normal 1 (33 / 100) * 50) * sin (normal 0 (33 / 100) / 2)) \<and>
   (\<exists>g pos. returned (create_web_network (quiet_env two_gene_table) stable_sort_desc no_noise ''GCH1'')
               = Some (g, pos) \<and> pos ''G2'' = Some (685 / 2, 0)) \<and>
   spec_item_position (400, 0) 0 2 (19 / 20) 0 0 = (915 / 2, 0)"
  by (simp add: tissue_rows_two_gene run_two_gene_noise spec_item_position_def Let_def)
     (simp add: no_noise_def)

text \<open>
  Counterexample to C8 as it is worded, in two ways.  When \<open>webbrowser.open\<close> raises, the handler
  returns the null result, and the file has been written in full.  And a table
  without the column \<open>Gene Symbol\<close> raises nothing when no row reaches the threshold:
  the function returns a graph and writes the file.
\<close>

theorem file_written_although_failed:
  "returned (create_web_network (viewer_fails_env two_gene_table) stable_sort_desc no_noise ''GCH1'')
     = None \<and>
   console (create_web_network (viewer_fails_env two_gene_table) stable_sort_desc no_noise ''GCH1'')
     = [PrintError BrowserError, PrintTraceback BrowserError] \<and>
   out_file (create_web_network (viewer_fails_env two_gene_table) stable_sort_desc no_noise ''GCH1'')
     = Written
        [NodeJson ''GCH1'' Central None None None 0 0,
         NodeJson ''T'' Tissue (Some 2) None None 400 0,
         NodeJson ''G2'' Gene None (Some (19 / 20)) (Some ''T'') (685 / 2) 0,
         NodeJson ''G1'' Gene None (Some (9 / 10)) (Some ''T'') 465 0]
        [LinkJson ''GCH1'' ''T'' 5, LinkJson ''T'' ''G2'' (57 / 20), LinkJson ''T'' ''G1'' (27 / 10)] \<and>
   ''Gene Symbol'' \<notin> set (columns no_gene_column_table) \<and>
   returned (create_web_network (quiet_env no_gene_column_table) stable_sort_desc no_noise ''GCH1'')
     = Some (\<lparr>g_node = [(''GCH1'', central_attrs)], g_adj = [(''GCH1'', [])]\<rparr>,
             [''GCH1'' \<mapsto> (0, 0)]) \<and>
   console (create_web_network (quiet_env no_gene_column_table) stable_sort_desc no_noise ''GCH1'')
     = [] \<and>
   out_file (create_web_network (quiet_env no_gene_column_table) stable_sort_desc no_noise ''GCH1'')
     = Written [NodeJson ''GCH1'' Central None None None 0 0] []"
  by (simp add: run_viewer_fails run_no_gene_column) (simp add: no_gene_column_table_def)

text \<open>
  C8, amended.  A null result always comes with the error and its trace on the
  console.  When the error is raised before \<open>f.write\<close> (by \<open>pd.read_csv\<close>, by the access
  to a column, in the loops, by \<open>os.makedirs\<close> or by \<open>open\<close>), no output file is written.
  A table without \<open>PCC\<close> or without \<open>Tumor\<close> always ends so, and a table without
  \<open>Gene Symbol\<close> does when at least one row has \<open>PCC \<ge> 0.8\<close>.
\<close>

theorem no_file_when_failing_before_write:
  "(returned (create_web_network e sort_values normal c) = None \<longrightarrow>
      (\<exists>err. console (create_web_network e sort_values normal c) = [PrintError err, PrintTraceback err] \<and>
             (err \<noteq> WriteError \<and> err \<noteq> BrowserError \<longrightarrow>
                out_file (create_web_network e sort_values normal c) = NotWritten))) \<and>
   (\<forall>err. csv e = Inl err \<longrightarrow>
      returned (create_web_network e sort_values normal c) = None \<and>
      out_file (create_web_network e sort_values normal c) = NotWritten) \<and>
   (csv e = Inr df \<and> (''PCC'' \<notin> set (columns df) \<or> ''Tumor'' \<notin> set (columns df)) \<longrightarrow>
      returned (create_web_network e sort_values normal c) = None \<and>
      out_file (create_web_network e sort_values normal c) = NotWritten) \<and>
   (sorts_desc sort_values \<and> csv e = Inr df \<and> ''Gene Symbol'' \<notin> set (columns df) \<and>
    filtered_rows df \<noteq> [] \<longrightarrow>
      returned (create_web_network e sort_values normal c) = None \<and>
      out_file (create_web_network e sort_values normal c) = NotWritten)"
proof (intro conjI impI allI)
  assume "returned (create_web_network e sort_values normal c) = None"
  then show "\<exists>err. console (create_web_network e sort_values normal c) = [PrintError err, PrintTraceback err] \<and>
             (err \<noteq> WriteError \<and> err \<noteq> BrowserError \<longrightarrow>
                out_file (create_web_network e sort_values normal c) = NotWritten)"
    by (auto simp: create_web_network_def try_body_def split: sum.splits if_splits prod.splits)
next
  fix err assume "csv e = Inl err"
  then show "returned (create_web_network e sort_values normal c) = None"
    and "out_file (create_web_network e sort_values normal c) = NotWritten"
    by (simp_all add: create_web_network_def try_body_def)
next
  assume "csv e = Inr df \<and> (''PCC'' \<notin> set (columns df) \<or> ''Tumor'' \<notin> set (columns df))"
  then have "csv e = Inr df" "\<exists>err. build_graph sort_values normal c df = Inl err"
    by (auto simp: build_graph_def)
  then show "returned (create_web_network e sort_values normal c) = None"
    and "out_file (create_web_network e sort_values normal c) = NotWritten"
    by (auto simp: create_web_network_def try_body_def)
next
  assume "sorts_desc sort_values \<and> csv e = Inr df \<and> ''Gene Symbol'' \<notin> set (columns df) \<and>
    filtered_rows df \<noteq> []"
  then have "csv e = Inr df" "\<exists>err. build_graph sort_values normal c df = Inl err"
    using build_graph_no_gene_column by auto
  then show "returned (create_web_network e sort_values normal c) = None"
    and "out_file (create_web_network e sort_values normal c) = NotWritten"
    by (auto simp: create_web_network_def try_body_def)
qed

text \<open>
  A table without \<open>PCC\<close>, and a table without \<open>Gene Symbol\<close> whose one row passes the
  threshold: both end with the null result and without a file.
\<close>

theorem no_file_when_failing_before_write_witness:
  "returned (create_web_network (quiet_env no_pcc_column_table) stable_sort_desc no_noise ''GCH1'')
     = None \<and>
   console (create_web_network (quiet_env no_pcc_column_table) stable_sort_desc no_noise ''GCH1'')
     = [PrintError (KeyError ''PCC''), PrintTraceback (KeyError ''PCC'')] \<and>
   out_file (create_web_network (quiet_env no_pcc_column_table) stable_sort_desc no_noise ''GCH1'')
     = NotWritten \<and>
   returned (create_web_network
               (quiet_env \<lparr>columns = [''Tumor'', ''PCC''], cells = [(''G1'', ''T'', 9 / 10)]\<rparr>)
               stable_sort_desc no_noise ''GCH1'') = None \<and>
   out_file (create_web_network
               (quiet_env \<lparr>columns = [''Tumor'', ''PCC''], cells = [(''G1'', ''T'', 9 / 10)]\<rparr>)
               stable_sort_desc no_noise ''GCH1'') = NotWritten"
proof -
  let ?out = "create_web_network (quiet_env no_pcc_column_table) stable_sort_desc no_noise ''GCH1''"
  let ?df = "\<lparr>columns = [''Tumor'', ''PCC''], cells = [(''G1'', ''T'', 9 / 10)]\<rparr> :: dataframe"
  have r: "returned ?out = None"
    and c: "console ?out = [PrintError (KeyError ''PCC''), PrintTraceback (KeyError ''PCC'')]"
    by (simp_all add: run_no_pcc_column)
  note inst = no_file_when_failing_before_write
    [of "quiet_env no_pcc_column_table" stable_sort_desc no_noise "''GCH1''"]
  from inst r obtain err where
    "console ?out = [PrintError err, PrintTraceback err]"
    "err \<noteq> WriteError \<and> err \<noteq> BrowserError \<longrightarrow> out_file ?out = NotWritten"
    by blast
  with c have f: "out_file ?out = NotWritten" by simp
  have "filtered_rows ?df \<noteq> []"
    by (simp add: filtered_rows_def label_rows_def enumerate_eq_zip)
  with no_file_when_failing_before_write
    [of "quiet_env ?df" stable_sort_desc no_noise "''GCH1''" ?df] sorts_desc_stable
  have "returned (create_web_network (quiet_env ?df) stable_sort_desc no_noise ''GCH1'') = None \<and>
        out_file (create_web_network (quiet_env ?df) stable_sort_desc no_noise ''GCH1'') = NotWritten"
    by simp
  with r c f show ?thesis by simp
qed

text \<open>
  Counterexample to C1 as it is worded.  In \<open>capped_table\<close> the tissue \<open>T\<close> has 151 rows and 150 distinct gene names; the
  scores fall from row to row, so the 150 rows that the loop keeps are the first 150,
  whatever the sort does with equal scores.  The first two of them name the same
  gene: 149 gene nodes are attached to \<open>T\<close>, and not 150, the minimum of 150 and
  the number of distinct names.
\<close>

theorem cap_precedes_deduplication:
  "attached_count (create_web_network (quiet_env capped_table) stable_sort_desc no_noise ''GCH1'')
     ''T'' = Some 149 \<and>
   length (filtered_rows capped_table) = 151 \<and>
   tumor ` set (filtered_rows capped_table) = {''T''} \<and>
   card (gene_symbol ` set (filtered_rows capped_table)) = 150"
proof -
  let ?name = "\<lambda>i. replicate (max i 1) CHR ''g''"
  have n151: "(151::nat) = Suc (Suc 149)" and n150: "(150::nat) = Suc (Suc 148)" by simp_all
  have "gene_symbol ` set (filtered_rows capped_table) = ?name ` {0..<Suc (Suc 149)}"
    by (simp only: filtered_capped names_of_map n151)
  with replicate_names_card [of 149]
  have all_names: "card (gene_symbol ` set (filtered_rows capped_table)) = 150"
    by simp
  have cols: "set all_columns \<subseteq> set (columns capped_table)"
    by (simp add: capped_table_def)
  have "pcc r \<le> 3 / 2" if "r \<in> set (filtered_rows capped_table)" for r
  proof -
    from that obtain i where "r = Row i (?name i) ''T'' (1 - real i / 1000)"
      unfolding filtered_capped by auto
    then show ?thesis by simp
  qed
  then have "\<forall>r\<in>set (filtered_rows capped_table). pcc r \<le> 3 / 2" by blast
  from build_graph_total [OF sorts_desc_stable cols this] obtain st where
    st: "build_graph stable_sort_desc no_noise ''GCH1'' capped_table = Inr st"
    by blast
  have t: "''T'' \<in> tumor ` set (filtered_rows capped_table)"
    by (simp only: labels_capped) simp
  have kept: "gene_symbol ` set (tissue_rows stable_sort_desc (filtered_rows capped_table) ''T'')
          = ?name ` {0..<Suc (Suc 148)}"
    by (simp only: kept_capped names_of_map n150)
  have "x \<notin> insert ''GCH1'' {''T''}" if "x \<in> ?name ` {0..<Suc (Suc 148)}" for x
  proof -
    from that obtain i where "x = replicate (max i 1) CHR ''g''" by blast
    with replicate_name_not_reserved [of "max i 1"] show ?thesis by simp
  qed
  then have "?name ` {0..<Suc (Suc 148)} - insert ''GCH1'' {''T''} = ?name ` {0..<Suc (Suc 148)}"
    by blast
  then have "set (gene_neighbours (G st) ''T'') = ?name ` {0..<Suc (Suc 148)}"
    by (simp only: gene_neighbours_set [OF st t] labels_capped kept)
  with replicate_names_card [of 148]
  have "card (set (gene_neighbours (G st) ''T'')) = 149"
    by simp
  with distinct_card [OF gene_neighbours_distinct [OF st], of "''T''"]
  have "length (gene_neighbours (G st) ''T'') = 149" by simp
  with quiet_run_returns [OF st]
  have "attached_count (create_web_network (quiet_env capped_table) stable_sort_desc no_noise ''GCH1'')
          ''T'' = Some 149"
    by (simp add: attached_count_def)
  moreover have "length (filtered_rows capped_table) = 151"
    by (simp add: filtered_capped)
  ultimately show ?thesis using labels_capped all_names by blast
qed

text \<open>
  C1, amended.  Let no row with \<open>PCC \<ge> 0.8\<close> name a gene like the central node or like
  a tissue.  The rows that the loop keeps for a tissue are the first 150 of its rows
  in the order of \<open>sort_values\<close>: as many as the tissue has, up to 150, and none of them
  scores below a row that is left out.  The gene nodes attached to the tissue are the
  distinct names among the kept rows.  Their number is at most the minimum of 150
  and the number of distinct names of the tissue, and it is that minimum when the
  tissue has at most 150 rows or no name twice.
\<close>

theorem attached_items_are_kept_rows:
  assumes "sorts_desc sort_values"
    and "returned (create_web_network e sort_values normal central_node) = Some (g, pos)"
    and "csv e = Inr df"
    and "t \<in> tumor ` set (filtered_rows df)"
    and "\<forall>r\<in>set (filtered_rows df).
           gene_symbol r \<noteq> central_node \<and> gene_symbol r \<notin> tumor ` set (filtered_rows df)"
  shows "set (gene_neighbours g t) = gene_symbol ` set (tissue_rows sort_values (filtered_rows df) t) \<and>
         length (gene_neighbours g t) =
           card (gene_symbol ` set (tissue_rows sort_values (filtered_rows df) t)) \<and>
         mset (tissue_rows sort_values (filtered_rows df) t)
           \<subseteq># mset (filter (\<lambda>r. tumor r = t) (filtered_rows df)) \<and>
         length (tissue_rows sort_values (filtered_rows df) t) =
           min (length (filter (\<lambda>r. tumor r = t) (filtered_rows df))) 150 \<and>
         (\<forall>a\<in>set (tissue_rows sort_values (filtered_rows df) t).
            \<forall>b\<in>#(mset (filter (\<lambda>r. tumor r = t) (filtered_rows df))
                   - mset (tissue_rows sort_values (filtered_rows df) t)).
              pcc b \<le> pcc a) \<and>
         length (gene_neighbours g t) \<le>
           min (card (gene_symbol ` set (filter (\<lambda>r. tumor r = t) (filtered_rows df)))) 150 \<and>
         (length (filter (\<lambda>r. tumor r = t) (filtered_rows df)) \<le> 150 \<or>
          distinct (map gene_symbol (filter (\<lambda>r. tumor r = t) (filtered_rows df))) \<longrightarrow>
            length (gene_neighbours g t) =
              min (card (gene_symbol ` set (filter (\<lambda>r. tumor r = t) (filtered_rows df)))) 150)"
proof -
  let ?fdf = "filtered_rows df"
  let ?sel = "filter (\<lambda>r. tumor r = t) ?fdf"
  let ?kept = "tissue_rows sort_values ?fdf t"
  from returned_D [OF assms(2)] assms(3) obtain st where
    st: "build_graph sort_values normal central_node df = Inr st" and g: "g = G st"
    by auto
  have sub: "set ?kept \<subseteq> set ?sel" by (rule kept_rows_subset [OF assms(1)])
  have high: "mset ?kept \<subseteq># mset ?sel \<and> length ?kept = min (length ?sel) 150 \<and>
              (\<forall>a\<in>set ?kept. \<forall>b\<in>#(mset ?sel - mset ?kept). pcc b \<le> pcc a)"
    by (rule kept_rows_highest [OF assms(1)])
  have "gene_symbol ` set ?kept \<inter> insert central_node (tumor ` set ?fdf) = {}"
    using sub assms(5) by auto
  then have names: "set (gene_neighbours g t) = gene_symbol ` set ?kept"
    unfolding g gene_neighbours_set [OF st assms(4)] by blast
  have "card (set (gene_neighbours g t)) = length (gene_neighbours g t)"
    unfolding g by (rule distinct_card [OF gene_neighbours_distinct [OF st]])
  with names have count: "length (gene_neighbours g t) = card (gene_symbol ` set ?kept)"
    by simp
  have le_kept: "card (gene_symbol ` set ?kept) \<le> length ?kept"
    using card_length [of "map gene_symbol ?kept"] by simp
  have le_sel: "card (gene_symbol ` set ?sel) \<le> length ?sel"
    using card_length [of "map gene_symbol ?sel"] by (simp del: filter_filter)
  have "card (gene_symbol ` set ?kept) \<le> card (gene_symbol ` set ?sel)"
    using sub by (intro card_mono) auto
  with le_kept high have upper: "length (gene_neighbours g t) \<le> min (card (gene_symbol ` set ?sel)) 150"
    by (simp add: count)
  have exact: "length (gene_neighbours g t) = min (card (gene_symbol ` set ?sel)) 150"
    if "length ?sel \<le> 150 \<or> distinct (map gene_symbol ?sel)"
    using that
  proof
    assume short: "length ?sel \<le> 150"
    from kept_all_when_short [OF assms(1) short] have "set ?kept = set ?sel" .
    with le_sel short show ?thesis by (simp add: count)
  next
    assume d: "distinct (map gene_symbol ?sel)"
    from kept_distinct_names [OF assms(1) d] have "distinct (map gene_symbol ?kept)" .
    from distinct_card [OF this] distinct_card [OF d] high show ?thesis
      by (simp add: count)
  qed
  from names count high upper exact show ?thesis by blast
qed

text \<open>
  On \<open>repeated_gene_table\<close> the tissue \<open>B\<close> has two rows, both kept and both of the gene
  \<open>G\<close>: one gene node is attached to it.
\<close>

theorem attached_items_are_kept_rows_witness:
  "\<exists>g pos.
      returned (create_web_network (quiet_env repeated_gene_table) stable_sort_desc
                  no_noise ''GCH1'') = Some (g, pos) \<and>
      map gene_symbol (filter (\<lambda>r. tumor r = ''B'') (filtered_rows repeated_gene_table))
        = [''G'', ''G''] \<and>
      gene_neighbours g ''B'' = [''G''] \<and>
      gene_symbol ` set (tissue_rows stable_sort_desc (filtered_rows repeated_gene_table) ''B'')
        = {''G''} \<and>
      min (card (gene_symbol ` set (filter (\<lambda>r. tumor r = ''B'')
                                      (filtered_rows repeated_gene_table)))) 150 = 1"
proof -
  let ?run = "create_web_network (quiet_env repeated_gene_table) stable_sort_desc no_noise ''GCH1''"
  let ?fdf = "filtered_rows repeated_gene_table"
  obtain g pos where r: "returned ?run = Some (g, pos)" and nb: "gene_neighbours g ''B'' = [''G'']"
    by (simp add: run_repeated gene_neighbours_def neighbours_def kind_of_def
          central_attrs_def gene_attrs_def)
  have t: "''B'' \<in> tumor ` set ?fdf" by (simp add: filtered_repeated)
  have nc: "\<forall>r\<in>set ?fdf. gene_symbol r \<noteq> ''GCH1'' \<and> gene_symbol r \<notin> tumor ` set ?fdf"
    by (simp add: filtered_repeated)
  have sel: "map gene_symbol (filter (\<lambda>r. tumor r = ''B'') ?fdf) = [''G'', ''G'']"
    by (simp add: filtered_repeated)
  have short: "length (filter (\<lambda>r. tumor r = ''B'') ?fdf) \<le> 150"
    by (simp add: filtered_repeated)
  note inst = attached_items_are_kept_rows [OF sorts_desc_stable r csv_quiet_env t nc]
  from inst nb have "gene_symbol ` set (tissue_rows stable_sort_desc ?fdf ''B'') = {''G''}"
    by simp
  moreover from inst short nb
  have "min (card (gene_symbol ` set (filter (\<lambda>r. tumor r = ''B'') ?fdf))) 150 = 1"
    by simp
  ultimately show ?thesis using r sel nb
    by (intro exI [of _ g] exI [of _ pos] conjI)
qed

end
